theory Spec2Isabelle
  imports Complex_Main
begin

section \<open>Star counter (solution.js): data model\<close>

text \<open>
  The script works on the live DOM. A line (an element of class \<open>wrapper\<close>) is modelled
  by the ordered list of its child nodes; an element reference is an index into that
  list. The stars, the count display and the button container are children of the line
  itself, as they are when the script creates them. Only the class of a child matters
  to the script's selectors:
  \<open>fa-star\<close> (a full star), \<open>fa-star-half-o\<close> (a half star), \<open>star-count\<close>
  (the count display span, with its text, colour and font weight), \<open>star-controls\<close>
  (the button container) and anything else (text nodes, other elements).

  JavaScript numbers are doubles. Every number the script computes is a star total
  \<open>n + 0.5 * h\<close> or such a total plus one of \<open>1, -1, 0.5, -0.5\<close>; these are
  multiples of one half, on which double arithmetic is exact, so numbers are
  modelled as rationals.
\<close>

datatype node =
    FullStar
  | HalfStar
  | StarCount (textContent: string) (color: string) (fontWeight: string)
  | StarControls
  | OtherNode

type_synonym line = "node list"

record starCount =
  fullStars :: nat
  halfStars :: nat
  total :: rat

datatype error = TypeError

subsection \<open>Constants\<close>

definition STAR_LIMITS_MIN :: rat where "STAR_LIMITS_MIN = 1"
definition STAR_LIMITS_MAX :: rat where "STAR_LIMITS_MAX = 5"

definition COLOR_THRESHOLDS_RED :: rat where "COLOR_THRESHOLDS_RED = 2"

definition COLORS_RED :: string where "COLORS_RED = ''red''"
definition COLORS_YELLOW :: string where "COLORS_YELLOW = ''yellow''"
definition COLORS_GREEN :: string where "COLORS_GREEN = ''green''"

subsection \<open>Selectors over the children of a line\<close>

fun isFullStar :: "node \<Rightarrow> bool" where
  "isFullStar FullStar = True"
| "isFullStar _ = False"

fun isHalfStar :: "node \<Rightarrow> bool" where
  "isHalfStar HalfStar = True"
| "isHalfStar _ = False"

fun isStarCount :: "node \<Rightarrow> bool" where
  "isStarCount (StarCount t c w) = True"
| "isStarCount _ = False"

fun isStarControls :: "node \<Rightarrow> bool" where
  "isStarControls StarControls = True"
| "isStarControls _ = False"

text \<open>\<open>querySelector\<close>: the index of the first child matching the selector, if any.\<close>

fun querySelector :: "(node \<Rightarrow> bool) \<Rightarrow> line \<Rightarrow> nat option" where
  "querySelector P [] = None"
| "querySelector P (x # xs) =
     (if P x then Some 0 else map_option Suc (querySelector P xs))"

text \<open>\<open>querySelectorAll\<close>: the indices of all matching children, in document order.\<close>

definition querySelectorAll :: "(node \<Rightarrow> bool) \<Rightarrow> line \<Rightarrow> nat list" where
  "querySelectorAll P l = filter (\<lambda>i. P (l ! i)) [0..<length l]"

text \<open>DOM updates of the child list.\<close>

definition removeAt :: "line \<Rightarrow> nat \<Rightarrow> line" where
  "removeAt l i = take i l @ drop (Suc i) l"

definition appendChild :: "line \<Rightarrow> node \<Rightarrow> line" where
  "appendChild l x = l @ [x]"

text \<open>\<open>insertBefore(x, null)\<close> appends.\<close>

definition insertBefore :: "line \<Rightarrow> node \<Rightarrow> nat option \<Rightarrow> line" where
  "insertBefore l x r =
     (case r of None \<Rightarrow> appendChild l x | Some i \<Rightarrow> take i l @ x # drop i l)"

section \<open>Core logic\<close>

definition countStarsInLine :: "line \<Rightarrow> starCount" where
  "countStarsInLine lineElement =
     (let fullStars = querySelectorAll isFullStar lineElement;
          halfStars = querySelectorAll isHalfStar lineElement;
          fullStarsCount = length fullStars;
          halfStarsCount = length halfStars;
          total = of_nat fullStarsCount + (of_nat halfStarsCount * (1 / 2))
      in \<lparr>fullStars = fullStarsCount, halfStars = halfStarsCount, total = total\<rparr>)"

definition getColorForStarCount :: "starCount \<Rightarrow> string" where
  "getColorForStarCount c =
     (if halfStars c > 0 then COLORS_GREEN
      else if total c \<le> COLOR_THRESHOLDS_RED then COLORS_RED
      else COLORS_YELLOW)"

definition isStarChangeAllowed :: "rat \<Rightarrow> rat \<Rightarrow> bool" where
  "isStarChangeAllowed currentTotal changeAmount =
     (let newTotal = currentTotal + changeAmount
      in newTotal \<ge> STAR_LIMITS_MIN \<and> newTotal \<le> STAR_LIMITS_MAX)"

subsection \<open>Number formatting\<close>

text \<open>
  The template literals \<open>`${count.total} STARS`\<close> and \<open>`Total: ${calculatedTotal} STARS`\<close>
  convert a number to its decimal text. The numbers printed are non-negative multiples
  of one half: an integer prints as its digits, and \<open>n + 0.5\<close> prints as the digits of
  \<open>n\<close> followed by \<open>.5\<close>.
\<close>

definition digitChar :: "nat \<Rightarrow> char" where
  "digitChar d = ''0123456789'' ! d"

fun decimalDigits :: "nat \<Rightarrow> string" where
  "decimalDigits n =
     (if n < 10 then [digitChar n] else decimalDigits (n div 10) @ [digitChar (n mod 10)])"

declare decimalDigits.simps [simp del]

definition numberToString :: "rat \<Rightarrow> string" where
  "numberToString r =
     (let whole = nat \<lfloor>r\<rfloor>
      in if of_nat whole = r then decimalDigits whole else decimalDigits whole @ ''.5'')"

section \<open>DOM utilities\<close>

definition createCountDisplayElement :: "line \<Rightarrow> line" where
  "createCountDisplayElement lineElement =
     appendChild lineElement (StarCount [] [] ''bold'')"

definition findStarInsertionPoint :: "line \<Rightarrow> nat option" where
  "findStarInsertionPoint lineElement =
     (case querySelector isStarCount lineElement of
        Some countDisplay \<Rightarrow> Some countDisplay
      | None \<Rightarrow>
         (case querySelector isStarControls lineElement of
            Some buttonContainer \<Rightarrow> Some buttonContainer
          | None \<Rightarrow> None))"

definition insertStarElement :: "line \<Rightarrow> node \<Rightarrow> nat option \<Rightarrow> line" where
  "insertStarElement lineElement starElement insertBefore_arg =
     (let targetElement =
            (case insertBefore_arg of Some t \<Rightarrow> Some t
             | None \<Rightarrow> findStarInsertionPoint lineElement)
      in case targetElement of
           Some t \<Rightarrow> insertBefore lineElement starElement (Some t)
         | None \<Rightarrow> appendChild lineElement starElement)"

section \<open>Line display\<close>

definition updateLineDisplay :: "line \<Rightarrow> starCount option \<Rightarrow> line" where
  "updateLineDisplay lineElement starCount_arg =
     (let count = (case starCount_arg of Some c \<Rightarrow> c
                   | None \<Rightarrow> countStarsInLine lineElement);
          (l1, countDisplay) =
            (case querySelector isStarCount lineElement of
               Some i \<Rightarrow> (lineElement, i)
             | None \<Rightarrow> (createCountDisplayElement lineElement, length lineElement))
      in l1[countDisplay :=
              StarCount (numberToString (total count) @ '' STARS'')
                        (getColorForStarCount count)
                        (fontWeight (l1 ! countDisplay))])"

section \<open>Star manipulation\<close>

definition addFullStar :: "line \<Rightarrow> line" where
  "addFullStar lineElement =
     (let currentCount = countStarsInLine lineElement
      in if \<not> isStarChangeAllowed (total currentCount) 1 then lineElement
         else
           let halfStar = querySelector isHalfStar lineElement;
               insertBefore_arg =
                 (case halfStar of Some h \<Rightarrow> Some h
                  | None \<Rightarrow> findStarInsertionPoint lineElement)
           in insertStarElement lineElement FullStar insertBefore_arg)"

definition removeFullStar :: "line \<Rightarrow> line" where
  "removeFullStar lineElement =
     (let currentCount = countStarsInLine lineElement
      in if \<not> isStarChangeAllowed (total currentCount) (- 1) then lineElement
         else
           let allFullStars = querySelectorAll isFullStar lineElement
           in if length allFullStars > 0
              then removeAt lineElement (allFullStars ! (length allFullStars - 1))
              else lineElement)"

definition addHalfStar :: "line \<Rightarrow> line" where
  "addHalfStar lineElement =
     (let currentCount = countStarsInLine lineElement
      in if \<not> isStarChangeAllowed (total currentCount) (1 / 2) then lineElement
         else
           case querySelector isHalfStar lineElement of
             Some existingHalfStar \<Rightarrow>
               let l1 = removeAt lineElement existingHalfStar;
                   allFullStars = querySelectorAll isFullStar l1;
                   insertBefore_arg = findStarInsertionPoint l1
               in if length allFullStars > 0
                  then
                    let lastFullStar = allFullStars ! (length allFullStars - 1);
                        nextSibling =
                          (if Suc lastFullStar < length l1
                           then Some (Suc lastFullStar) else None)
                    in insertBefore l1 FullStar
                         (case nextSibling of Some s \<Rightarrow> Some s
                          | None \<Rightarrow> insertBefore_arg)
                  else insertStarElement l1 FullStar insertBefore_arg
           | None \<Rightarrow>
               insertStarElement lineElement HalfStar
                 (findStarInsertionPoint lineElement))"

definition removeHalfStar :: "line \<Rightarrow> line" where
  "removeHalfStar lineElement =
     (let currentCount = countStarsInLine lineElement
      in if \<not> isStarChangeAllowed (total currentCount) (- (1 / 2)) then lineElement
         else
           case querySelector isHalfStar lineElement of
             Some existingHalfStar \<Rightarrow> removeAt lineElement existingHalfStar
           | None \<Rightarrow>
               let allFullStars = querySelectorAll isFullStar lineElement
               in if length allFullStars > 0
                  then
                    let lastFullStar = allFullStars ! (length allFullStars - 1);
                        l1 = insertBefore lineElement HalfStar (Some lastFullStar)
                    in removeAt l1 (Suc lastFullStar)
                  else lineElement)"

section \<open>The page: lines and the total display\<close>

text \<open>
  The document holds the lines (the elements of class \<open>wrapper\<close>, in document order),
  possibly the container \<open>#main\<close>, and possibly the element \<open>#total-stars-display\<close>
  with its text. The two module-level caches hold references to these same elements,
  which the script never removes, so a read through a cache is a read of the document.
  A line element is referred to by its position among the lines; a position outside
  the list is \<open>undefined\<close>, on which the first property access throws.
\<close>

record page =
  lines :: "line list"
  mainContainer :: bool
  totalDisplay :: "string option"

text \<open>
  A function that touches the page either returns, with the page as it has left it,
  or an exception propagates out of it (reading a property of \<open>null\<close> or
  \<open>undefined\<close>); the changes made to the document before the exception stay.
\<close>

datatype outcome = Returned page | Thrown error page

fun finalPage :: "outcome \<Rightarrow> page" where
  "finalPage (Returned p) = p"
| "finalPage (Thrown e p) = p"

definition createTotalDisplayElement :: "page \<Rightarrow> outcome" where
  "createTotalDisplayElement p =
     (if mainContainer p then Returned (p\<lparr>totalDisplay := Some []\<rparr>)
      else Thrown TypeError p)"

definition getTotalDisplay :: "page \<Rightarrow> outcome" where
  "getTotalDisplay p =
     (case totalDisplay p of Some t \<Rightarrow> Returned p | None \<Rightarrow> createTotalDisplayElement p)"

definition calculateTotalFromCounts :: "starCount list \<Rightarrow> rat" where
  "calculateTotalFromCounts starCounts = foldl (\<lambda>sum count. sum + total count) 0 starCounts"

definition calculateTotalStars :: "page \<Rightarrow> rat" where
  "calculateTotalStars p =
     foldl (\<lambda>tot line. tot + total (countStarsInLine line)) 0 (lines p)"

definition updateTotalDisplay :: "page \<Rightarrow> rat option \<Rightarrow> outcome" where
  "updateTotalDisplay p total_arg =
     (let calculatedTotal = (case total_arg of Some t \<Rightarrow> t | None \<Rightarrow> calculateTotalStars p)
      in case getTotalDisplay p of
           Thrown e p1 \<Rightarrow> Thrown e p1
         | Returned p1 \<Rightarrow>
             Returned (p1\<lparr>totalDisplay :=
                        Some (''Total: '' @ numberToString calculatedTotal @ '' STARS'')\<rparr>))"

definition updateAllLinesDisplay :: "page \<Rightarrow> page \<times> starCount list" where
  "updateAllLinesDisplay p =
     (p\<lparr>lines := map (\<lambda>line. updateLineDisplay line (Some (countStarsInLine line))) (lines p)\<rparr>,
      map countStarsInLine (lines p))"

definition updateAllDisplays :: "page \<Rightarrow> outcome" where
  "updateAllDisplays p =
     (let (p1, starCounts) = updateAllLinesDisplay p;
          tot = calculateTotalFromCounts starCounts
      in updateTotalDisplay p1 (Some tot))"

definition handleStarChange :: "page \<Rightarrow> nat \<Rightarrow> rat \<Rightarrow> outcome" where
  "handleStarChange p i changeAmount =
     (if i \<ge> length (lines p) then Thrown TypeError p
      else
        let lineElement = lines p ! i;
            currentCount = countStarsInLine lineElement
        in if \<not> isStarChangeAllowed (total currentCount) changeAmount then Returned p
           else
             let l1 = (if changeAmount = 1 then addFullStar lineElement
                       else if changeAmount = - 1 then removeFullStar lineElement
                       else if changeAmount = 1 / 2 then addHalfStar lineElement
                       else if changeAmount = - (1 / 2) then removeHalfStar lineElement
                       else lineElement);
                 newCount = countStarsInLine l1;
                 l2 = updateLineDisplay l1 (Some newCount)
             in updateTotalDisplay (p\<lparr>lines := (lines p)[i := l2]\<rparr>) None)"

section \<open>Specification-side notions\<close>

text \<open>
  The marker sequence of a line: its full and half stars, in document order.
\<close>

definition isMarker :: "node \<Rightarrow> bool" where
  "isMarker n = (isFullStar n \<or> isHalfStar n)"

definition markers :: "line \<Rightarrow> node list" where
  "markers l = filter isMarker l"

definition lineTotal :: "line \<Rightarrow> rat" where
  "lineTotal l = total (countStarsInLine l)"

text \<open>
  The marker invariant of the data model: at most one half star, and every full star
  before it.
\<close>

definition canonicalMarkers :: "line \<Rightarrow> bool" where
  "canonicalMarkers l =
     (halfStars (countStarsInLine l) \<le> 1 \<and>
      markers l = replicate (fullStars (countStarsInLine l)) FullStar
                  @ replicate (halfStars (countStarsInLine l)) HalfStar)"

text \<open>
  The layout the script relies on (\<open>findStarInsertionPoint\<close>: "Stars should be grouped
  together, before count display and buttons"): no star at or after the insertion
  point. It holds of a line without count display and button container, and the script
  appends both at the end of the line.
\<close>

definition starsBeforeInsertionPoint :: "line \<Rightarrow> bool" where
  "starsBeforeInsertionPoint l =
     (case findStarInsertionPoint l of None \<Rightarrow> True | Some k \<Rightarrow> markers (drop k l) = [])"

definition wellFormedLine :: "line \<Rightarrow> bool" where
  "wellFormedLine l = (canonicalMarkers l \<and> starsBeforeInsertionPoint l)"

text \<open>The text that shows the sum of all lines' totals.\<close>

definition sumOfLineTotals :: "page \<Rightarrow> rat" where
  "sumOfLineTotals p = sum_list (map lineTotal (lines p))"

definition aggregateShown :: "page \<Rightarrow> bool" where
  "aggregateShown p =
     (totalDisplay p = Some (''Total: '' @ numberToString (sumOfLineTotals p) @ '' STARS''))"

section \<open>Sequences of mutations\<close>

text \<open>
  The four mutation functions, and what the four buttons of a line pass to
  \<open>handleStarChange\<close> (\<open>addButtonsToLine\<close>: \<open>change: -1, 1, -0.5, 0.5\<close>).
\<close>

datatype mutation = AddFull | RemoveFull | AddHalf | RemoveHalf

fun mutator :: "mutation \<Rightarrow> line \<Rightarrow> line" where
  "mutator AddFull = addFullStar"
| "mutator RemoveFull = removeFullStar"
| "mutator AddHalf = addHalfStar"
| "mutator RemoveHalf = removeHalfStar"

fun changeAmountOf :: "mutation \<Rightarrow> rat" where
  "changeAmountOf AddFull = 1"
| "changeAmountOf RemoveFull = - 1"
| "changeAmountOf AddHalf = 1 / 2"
| "changeAmountOf RemoveHalf = - (1 / 2)"

text \<open>The mutation functions called one after the other on a line.\<close>

fun applyMutations :: "line \<Rightarrow> mutation list \<Rightarrow> line" where
  "applyMutations l [] = l"
| "applyMutations l (m # ms) = applyMutations (mutator m l) ms"

text \<open>
  Buttons pressed one after the other, each on some line of the page. Every press is an
  event of its own: an exception in one handler does not stop the next.
\<close>

fun pressButtons :: "page \<Rightarrow> (nat \<times> mutation) list \<Rightarrow> page" where
  "pressButtons p [] = p"
| "pressButtons p ((i, m) # cs) =
     pressButtons (finalPage (handleStarChange p i (changeAmountOf m))) cs"

section \<open>Auxiliary notions for the proofs\<close>

text \<open>
  Insertion of a node at the insertion point, as \<open>insertStarElement\<close> does when it
  is handed \<open>findStarInsertionPoint\<close> of the same line.
\<close>

definition atInsertionPoint :: "line \<Rightarrow> node \<Rightarrow> line" where
  "atInsertionPoint l x =
     (case findStarInsertionPoint l of Some k \<Rightarrow> take k l @ x # drop k l | None \<Rightarrow> l @ [x])"

text \<open>
  The second half of the merge in \<open>addHalfStar\<close>: the new full star goes after the
  last full star of the line from which the half star has been removed.
\<close>

definition insertAfterLastFullStar :: "line \<Rightarrow> line" where
  "insertAfterLastFullStar l1 =
     (let allFullStars = querySelectorAll isFullStar l1;
          insertBefore_arg = findStarInsertionPoint l1
      in if length allFullStars > 0
         then
           let lastFullStar = allFullStars ! (length allFullStars - 1);
               nextSibling =
                 (if Suc lastFullStar < length l1 then Some (Suc lastFullStar) else None)
           in insertBefore l1 FullStar
                (case nextSibling of Some s \<Rightarrow> Some s | None \<Rightarrow> insertBefore_arg)
         else insertStarElement l1 FullStar insertBefore_arg)"

text \<open>The dispatch of \<open>handleStarChange\<close> on the change amount.\<close>

definition mutateLine :: "rat \<Rightarrow> line \<Rightarrow> line" where
  "mutateLine changeAmount lineElement =
     (if changeAmount = 1 then addFullStar lineElement
      else if changeAmount = - 1 then removeFullStar lineElement
      else if changeAmount = 1 / 2 then addHalfStar lineElement
      else if changeAmount = - (1 / 2) then removeHalfStar lineElement
      else lineElement)"

section \<open>Selectors and DOM updates: basic facts\<close>


lemma querySelectorAll_conv: "map (\<lambda>i. l ! i) (querySelectorAll P l) = filter P l"
proof -
  have "map (\<lambda>i. l ! i) (filter (\<lambda>i. P (l ! i)) [0..<length l]) = filter P (map (\<lambda>i. l ! i) [0..<length l])"
    by (simp add: filter_map comp_def)
  then show ?thesis by (simp add: querySelectorAll_def map_nth)
qed

lemma querySelectorAll_length: "length (querySelectorAll P l) = length (filter P l)"
  using querySelectorAll_conv [of l P] by (metis length_map)

lemma querySelectorAll_snoc:
  "querySelectorAll P (xs @ [x]) = querySelectorAll P xs @ (if P x then [length xs] else [])"
  by (auto simp: querySelectorAll_def nth_append intro!: filter_cong)

lemma querySelectorAll_last:
  assumes "length (querySelectorAll P l) > 0"
  shows "\<exists>pre x post. l = pre @ x # post \<and> P x \<and> filter P post = []
           \<and> querySelectorAll P l ! (length (querySelectorAll P l) - 1) = length pre"
  using assms
proof (induction l rule: rev_induct)
  case Nil
  then show ?case by (simp add: querySelectorAll_def)
next
  case (snoc x xs)
  show ?case
  proof (cases "P x")
    case True
    then have "xs @ [x] = xs @ x # [] \<and> P x \<and> filter P [] = []
       \<and> querySelectorAll P (xs @ [x]) ! (length (querySelectorAll P (xs @ [x])) - 1) = length xs"
      by (simp add: querySelectorAll_snoc)
    then show ?thesis by blast
  next
    case False
    then have eq: "querySelectorAll P (xs @ [x]) = querySelectorAll P xs"
      by (simp add: querySelectorAll_snoc)
    with snoc obtain pre y post where
      "xs = pre @ y # post" "P y" "filter P post = []"
      "querySelectorAll P xs ! (length (querySelectorAll P xs) - 1) = length pre"
      by auto
    with False eq have "xs @ [x] = pre @ y # (post @ [x]) \<and> P y \<and> filter P (post @ [x]) = []
       \<and> querySelectorAll P (xs @ [x]) ! (length (querySelectorAll P (xs @ [x])) - 1) = length pre"
      by simp
    then show ?thesis by blast
  qed
qed

lemma querySelector_None: "querySelector P l = None \<longleftrightarrow> filter P l = []"
  by (induction l) auto

lemma querySelector_Some:
  "querySelector P l = Some k \<Longrightarrow>
     \<exists>pre x post. l = pre @ x # post \<and> length pre = k \<and> P x \<and> filter P pre = []"
proof (induction l arbitrary: k)
  case Nil
  then show ?case by simp
next
  case (Cons a l)
  show ?case
  proof (cases "P a")
    case True
    with Cons.prems have "a # l = [] @ a # l \<and> length ([]::node list) = k \<and> P a \<and> filter P [] = []"
      by simp
    then show ?thesis by blast
  next
    case False
    with Cons.prems obtain j where j: "querySelector P l = Some j" "k = Suc j"
      by auto
    from Cons.IH [OF j(1)] obtain pre x post where
      "l = pre @ x # post" "length pre = j" "P x" "filter P pre = []" by blast
    with False j have "a # l = (a # pre) @ x # post \<and> length (a # pre) = k \<and> P x \<and> filter P (a # pre) = []"
      by simp
    then show ?thesis by blast
  qed
qed

lemma querySelector_skip:
  "\<not> P m \<Longrightarrow> querySelector P (a @ m # b) =
     map_option (\<lambda>k. if k < length a then k else Suc k) (querySelector P (a @ b))"
proof (induction a)
  case Nil
  then show ?case by (simp add: option.map_comp comp_def option.map_ident)
next
  case (Cons x a)
  then show ?case by (cases "querySelector P (a @ b)") (auto simp: option.map_comp comp_def)
qed

lemma isFullStar_iff [simp]: "isFullStar x \<longleftrightarrow> x = FullStar"
  by (cases x) auto

lemma isHalfStar_iff [simp]: "isHalfStar x \<longleftrightarrow> x = HalfStar"
  by (cases x) auto

lemma countStarsInLine_eq:
  "countStarsInLine l =
     \<lparr>fullStars = length (filter isFullStar l), halfStars = length (filter isHalfStar l),
      total = of_nat (length (filter isFullStar l)) + of_nat (length (filter isHalfStar l)) * (1 / 2)\<rparr>"
  by (simp add: countStarsInLine_def Let_def querySelectorAll_length)

lemma lineTotal_eq:
  "lineTotal l = of_nat (length (filter isFullStar l)) + of_nat (length (filter isHalfStar l)) * (1 / 2)"
  by (simp add: lineTotal_def countStarsInLine_eq)

lemma isStarChangeAllowed_iff:
  "isStarChangeAllowed c d \<longleftrightarrow> 1 \<le> c + d \<and> c + d \<le> 5"
  by (simp add: isStarChangeAllowed_def STAR_LIMITS_MIN_def STAR_LIMITS_MAX_def Let_def)

lemma insertBefore_shape: "\<exists>a b. l = a @ b \<and> insertBefore l x r = a @ x # b"
proof (cases r)
  case None
  then have "l = l @ [] \<and> insertBefore l x r = l @ x # []"
    by (simp add: insertBefore_def appendChild_def)
  then show ?thesis by blast
next
  case (Some i)
  then have "l = take i l @ drop i l \<and> insertBefore l x r = take i l @ x # drop i l"
    by (simp add: insertBefore_def)
  then show ?thesis by blast
qed

lemma insertStarElement_shape: "\<exists>a b. l = a @ b \<and> insertStarElement l x r = a @ x # b"
proof (cases "case r of Some t \<Rightarrow> Some t | None \<Rightarrow> findStarInsertionPoint l")
  case None
  then have "l = l @ [] \<and> insertStarElement l x r = l @ x # []"
    by (simp add: insertStarElement_def appendChild_def)
  then show ?thesis by blast
next
  case (Some t)
  then have "insertStarElement l x r = insertBefore l x (Some t)"
    by (simp add: insertStarElement_def)
  then show ?thesis using insertBefore_shape [of l x "Some t"] by simp
qed

lemma addFullStar_shape:
  "isStarChangeAllowed (lineTotal l) 1 \<Longrightarrow> \<exists>a b. l = a @ b \<and> addFullStar l = a @ FullStar # b"
  using insertStarElement_shape by (simp add: addFullStar_def lineTotal_def Let_def)

lemma addFullStar_rejected:
  "\<not> isStarChangeAllowed (lineTotal l) 1 \<Longrightarrow> addFullStar l = l"
  by (simp add: addFullStar_def lineTotal_def Let_def)

lemma removeFullStar_rejected:
  "\<not> isStarChangeAllowed (lineTotal l) (- 1) \<Longrightarrow> removeFullStar l = l"
  by (simp add: removeFullStar_def lineTotal_def Let_def)

lemma addHalfStar_rejected:
  "\<not> isStarChangeAllowed (lineTotal l) (1 / 2) \<Longrightarrow> addHalfStar l = l"
  by (simp add: addHalfStar_def lineTotal_def Let_def)

lemma removeHalfStar_rejected:
  "\<not> isStarChangeAllowed (lineTotal l) (- (1 / 2)) \<Longrightarrow> removeHalfStar l = l"
  by (simp add: removeHalfStar_def lineTotal_def Let_def)

lemma removeFullStar_some:
  assumes "isStarChangeAllowed (lineTotal l) (- 1)" "filter isFullStar l \<noteq> []"
  shows "\<exists>pre post. l = pre @ FullStar # post \<and> filter isFullStar post = []
           \<and> removeFullStar l = pre @ post"
proof -
  from assms(2) have pos: "length (querySelectorAll isFullStar l) > 0"
    by (simp add: querySelectorAll_length)
  from querySelectorAll_last [OF pos] obtain pre x post where d:
    "l = pre @ x # post" "isFullStar x" "filter isFullStar post = []"
    "querySelectorAll isFullStar l ! (length (querySelectorAll isFullStar l) - 1) = length pre"
    by blast
  from assms(1) pos d(4) have "removeFullStar l = removeAt l (length pre)"
    by (simp add: removeFullStar_def lineTotal_def Let_def)
  with d have "l = pre @ FullStar # post \<and> filter isFullStar post = [] \<and> removeFullStar l = pre @ post"
    by (simp add: removeAt_def)
  then show ?thesis by blast
qed

lemma removeFullStar_none:
  assumes "filter isFullStar l = []"
  shows "removeFullStar l = l"
proof -
  from assms have "length (querySelectorAll isFullStar l) = 0"
    by (simp add: querySelectorAll_length)
  then have "querySelectorAll isFullStar l = []" by simp
  then show ?thesis by (simp add: removeFullStar_def Let_def)
qed

lemma querySelectorAll_empty: "filter P l = [] \<Longrightarrow> querySelectorAll P l = []"
proof -
  assume "filter P l = []"
  then have "length (querySelectorAll P l) = 0" by (simp add: querySelectorAll_length)
  then show ?thesis by simp
qed

lemma querySelector_HalfD:
  assumes "filter isHalfStar l \<noteq> []"
  shows "\<exists>pre post. l = pre @ HalfStar # post \<and> filter isHalfStar pre = []
           \<and> querySelector isHalfStar l = Some (length pre)"
proof -
  from assms obtain k where k: "querySelector isHalfStar l = Some k"
    using querySelector_None [of isHalfStar l] by (cases "querySelector isHalfStar l") auto
  from querySelector_Some [OF k] obtain pre x post where
    "l = pre @ x # post" "length pre = k" "isHalfStar x" "filter isHalfStar pre = []" by blast
  with k have "l = pre @ HalfStar # post \<and> filter isHalfStar pre = []
           \<and> querySelector isHalfStar l = Some (length pre)" by simp
  then show ?thesis by blast
qed

lemma lastFullStarD:
  assumes "filter isFullStar l \<noteq> []"
  shows "\<exists>pre post. l = pre @ FullStar # post \<and> filter isFullStar post = []
           \<and> length (querySelectorAll isFullStar l) > 0
           \<and> querySelectorAll isFullStar l ! (length (querySelectorAll isFullStar l) - 1) = length pre"
proof -
  from assms have pos: "length (querySelectorAll isFullStar l) > 0"
    by (simp add: querySelectorAll_length)
  from querySelectorAll_last [OF pos] obtain pre x post where d:
    "l = pre @ x # post" "isFullStar x" "filter isFullStar post = []"
    "querySelectorAll isFullStar l ! (length (querySelectorAll isFullStar l) - 1) = length pre"
    by blast
  with pos have "l = pre @ FullStar # post \<and> filter isFullStar post = []
           \<and> length (querySelectorAll isFullStar l) > 0
           \<and> querySelectorAll isFullStar l ! (length (querySelectorAll isFullStar l) - 1) = length pre"
    by simp
  then show ?thesis by blast
qed

lemma removeHalfStar_half:
  assumes "isStarChangeAllowed (lineTotal l) (- (1 / 2))" "filter isHalfStar l \<noteq> []"
  shows "\<exists>pre post. l = pre @ HalfStar # post \<and> filter isHalfStar pre = []
           \<and> removeHalfStar l = pre @ post"
proof -
  from querySelector_HalfD [OF assms(2)] obtain pre post where d:
    "l = pre @ HalfStar # post" "filter isHalfStar pre = []"
    "querySelector isHalfStar l = Some (length pre)" by blast
  from assms(1) d(3) have "removeHalfStar l = removeAt l (length pre)"
    by (simp add: removeHalfStar_def lineTotal_def Let_def)
  with d have "l = pre @ HalfStar # post \<and> filter isHalfStar pre = [] \<and> removeHalfStar l = pre @ post"
    by (simp add: removeAt_def)
  then show ?thesis by blast
qed

lemma removeHalfStar_convert:
  assumes "isStarChangeAllowed (lineTotal l) (- (1 / 2))" "filter isHalfStar l = []"
    "filter isFullStar l \<noteq> []"
  shows "\<exists>pre post. l = pre @ FullStar # post \<and> filter isFullStar post = []
           \<and> removeHalfStar l = pre @ HalfStar # post"
proof -
  from lastFullStarD [OF assms(3)] obtain pre post where d:
    "l = pre @ FullStar # post" "filter isFullStar post = []"
    "length (querySelectorAll isFullStar l) > 0"
    "querySelectorAll isFullStar l ! (length (querySelectorAll isFullStar l) - 1) = length pre"
    by blast
  from assms(2) have "querySelector isHalfStar l = None" by (simp add: querySelector_None)
  with assms(1) d(3,4) have
    "removeHalfStar l = removeAt (insertBefore l HalfStar (Some (length pre))) (Suc (length pre))"
    by (simp add: removeHalfStar_def lineTotal_def Let_def)
  with d(1) have "removeHalfStar l = pre @ HalfStar # post"
    by (simp add: removeAt_def insertBefore_def)
  with d show ?thesis by blast
qed

lemma removeHalfStar_nothing:
  assumes "filter isHalfStar l = []" "filter isFullStar l = []"
  shows "removeHalfStar l = l"
  using assms
  by (simp add: removeHalfStar_def Let_def querySelector_None [THEN iffD2] querySelectorAll_empty)

lemma addFullStar_half:
  assumes "isStarChangeAllowed (lineTotal l) 1" "filter isHalfStar l \<noteq> []"
  shows "\<exists>pre post. l = pre @ HalfStar # post \<and> filter isHalfStar pre = []
           \<and> addFullStar l = pre @ FullStar # HalfStar # post"
proof -
  from querySelector_HalfD [OF assms(2)] obtain pre post where d:
    "l = pre @ HalfStar # post" "filter isHalfStar pre = []"
    "querySelector isHalfStar l = Some (length pre)" by blast
  from assms(1) d(3) have "addFullStar l = insertBefore l FullStar (Some (length pre))"
    by (simp add: addFullStar_def lineTotal_def Let_def insertStarElement_def)
  with d(1) have "addFullStar l = pre @ FullStar # HalfStar # post"
    by (simp add: insertBefore_def)
  with d show ?thesis by blast
qed

lemma insertStarElement_atPoint:
  "insertStarElement l x (findStarInsertionPoint l) = atInsertionPoint l x"
  by (simp add: insertStarElement_def atInsertionPoint_def insertBefore_def appendChild_def
      split: option.splits)

lemma addFullStar_nohalf:
  assumes "isStarChangeAllowed (lineTotal l) 1" "filter isHalfStar l = []"
  shows "addFullStar l = atInsertionPoint l FullStar"
proof -
  from assms(2) have "querySelector isHalfStar l = None" by (simp add: querySelector_None)
  with assms(1) show ?thesis
    by (simp add: addFullStar_def lineTotal_def Let_def insertStarElement_atPoint)
qed

lemma addHalfStar_nohalf:
  assumes "isStarChangeAllowed (lineTotal l) (1 / 2)" "filter isHalfStar l = []"
  shows "addHalfStar l = atInsertionPoint l HalfStar"
proof -
  from assms(2) have "querySelector isHalfStar l = None" by (simp add: querySelector_None)
  with assms(1) show ?thesis
    by (simp add: addHalfStar_def lineTotal_def Let_def insertStarElement_atPoint)
qed

lemma addHalfStar_merge:
  assumes "isStarChangeAllowed (lineTotal l) (1 / 2)" "filter isHalfStar l \<noteq> []"
  shows "\<exists>pre post. l = pre @ HalfStar # post \<and> filter isHalfStar pre = [] \<and>
           addHalfStar l = insertAfterLastFullStar (pre @ post)"
proof -
  from querySelector_HalfD [OF assms(2)] obtain pre post where d:
    "l = pre @ HalfStar # post" "filter isHalfStar pre = []"
    "querySelector isHalfStar l = Some (length pre)" by blast
  have l1: "removeAt l (length pre) = pre @ post" using d(1) by (simp add: removeAt_def)
  from assms(1) d(3) have "addHalfStar l = insertAfterLastFullStar (removeAt l (length pre))"
    by (simp add: addHalfStar_def insertAfterLastFullStar_def lineTotal_def Let_def)
  with l1 d show ?thesis by auto
qed

lemma insertAfterLastFullStar_none:
  assumes "filter isFullStar l1 = []"
  shows "insertAfterLastFullStar l1 = atInsertionPoint l1 FullStar"
proof -
  from assms have "querySelectorAll isFullStar l1 = []" by (rule querySelectorAll_empty)
  then show ?thesis
    by (simp add: insertAfterLastFullStar_def Let_def insertStarElement_atPoint)
qed

lemma insertAfterLastFullStar_some:
  assumes "filter isFullStar l1 \<noteq> []"
  shows "\<exists>a b. l1 = a @ FullStar # b \<and> filter isFullStar b = [] \<and>
           insertAfterLastFullStar l1 =
             (if b = [] then atInsertionPoint l1 FullStar else a @ FullStar # FullStar # b)"
proof -
  from lastFullStarD [OF assms] obtain a b where e:
    "l1 = a @ FullStar # b" "filter isFullStar b = []"
    "length (querySelectorAll isFullStar l1) > 0"
    "querySelectorAll isFullStar l1 ! (length (querySelectorAll isFullStar l1) - 1) = length a"
    by blast
  have len: "length l1 = Suc (length a + length b)" using e(1) by simp
  from e(3,4) have step: "insertAfterLastFullStar l1 =
      insertBefore l1 FullStar
        (case (if Suc (length a) < length l1 then Some (Suc (length a)) else None) of
           Some s \<Rightarrow> Some s | None \<Rightarrow> findStarInsertionPoint l1)"
    by (simp add: insertAfterLastFullStar_def Let_def)
  have "insertAfterLastFullStar l1 =
          (if b = [] then atInsertionPoint l1 FullStar else a @ FullStar # FullStar # b)"
  proof (cases "b = []")
    case True
    with len have "\<not> Suc (length a) < length l1" by simp
    with step True show ?thesis
      by (simp add: insertBefore_def appendChild_def atInsertionPoint_def split: option.splits)
  next
    case False
    with len have lt: "Suc (length a) < length l1" by (cases b) auto
    with step have "insertAfterLastFullStar l1 =
        take (Suc (length a)) l1 @ FullStar # drop (Suc (length a)) l1"
      by (simp add: insertBefore_def)
    also have "\<dots> = a @ FullStar # FullStar # b" by (simp only: e(1)) simp
    finally show ?thesis using False by simp
  qed
  with e(1,2) show ?thesis by blast
qed

lemma atInsertionPoint_shape: "\<exists>a b. l = a @ b \<and> atInsertionPoint l x = a @ x # b"
proof (cases "findStarInsertionPoint l")
  case None
  then have "l = l @ [] \<and> atInsertionPoint l x = l @ x # []"
    by (simp add: atInsertionPoint_def)
  then show ?thesis by blast
next
  case (Some k)
  then have "l = take k l @ drop k l \<and> atInsertionPoint l x = take k l @ x # drop k l"
    by (simp add: atInsertionPoint_def)
  then show ?thesis by blast
qed

lemma filter_atInsertionPoint:
  "length (filter P (atInsertionPoint l x)) = length (filter P l) + (if P x then 1 else 0)"
proof -
  from atInsertionPoint_shape [of l x] obtain a b where
    "l = a @ b" "atInsertionPoint l x = a @ x # b" by blast
  then show ?thesis by simp
qed

lemma filter_insertAfterLastFullStar:
  "length (filter P (insertAfterLastFullStar l)) = length (filter P l) + (if P FullStar then 1 else 0)"
proof (cases "filter isFullStar l = []")
  case True
  then show ?thesis by (simp add: insertAfterLastFullStar_none filter_atInsertionPoint)
next
  case False
  from insertAfterLastFullStar_some [OF False] obtain a b where e:
    "l = a @ FullStar # b"
    "insertAfterLastFullStar l =
       (if b = [] then atInsertionPoint l FullStar else a @ FullStar # FullStar # b)"
    by blast
  show ?thesis
  proof (cases "b = []")
    case True
    with e(2) show ?thesis by (simp add: filter_atInsertionPoint)
  next
    case False
    with e(2) have "insertAfterLastFullStar l = a @ FullStar # FullStar # b" by simp
    then show ?thesis by (simp add: e(1))
  qed
qed

text \<open>The effect of each accepted mutation on the two counts.\<close>

lemma addFullStar_counts:
  assumes "isStarChangeAllowed (lineTotal l) 1"
  shows "length (filter isFullStar (addFullStar l)) = Suc (length (filter isFullStar l))"
    and "length (filter isHalfStar (addFullStar l)) = length (filter isHalfStar l)"
proof -
  from addFullStar_shape [OF assms] obtain a b where
    e: "l = a @ b" "addFullStar l = a @ FullStar # b" by blast
  show "length (filter isFullStar (addFullStar l)) = Suc (length (filter isFullStar l))"
    using e by simp
  show "length (filter isHalfStar (addFullStar l)) = length (filter isHalfStar l)"
    using e by simp
qed

lemma removeFullStar_counts:
  assumes "isStarChangeAllowed (lineTotal l) (- 1)" "filter isFullStar l \<noteq> []"
  shows "Suc (length (filter isFullStar (removeFullStar l))) = length (filter isFullStar l)"
    and "length (filter isHalfStar (removeFullStar l)) = length (filter isHalfStar l)"
proof -
  from removeFullStar_some [OF assms] obtain pre post where
    e: "l = pre @ FullStar # post" "removeFullStar l = pre @ post" by blast
  show "Suc (length (filter isFullStar (removeFullStar l))) = length (filter isFullStar l)"
    using e by simp
  show "length (filter isHalfStar (removeFullStar l)) = length (filter isHalfStar l)"
    using e by simp
qed

lemma addHalfStar_counts_merge:
  assumes "isStarChangeAllowed (lineTotal l) (1 / 2)" "filter isHalfStar l \<noteq> []"
  shows "length (filter isFullStar (addHalfStar l)) = Suc (length (filter isFullStar l))"
    and "Suc (length (filter isHalfStar (addHalfStar l))) = length (filter isHalfStar l)"
proof -
  from addHalfStar_merge [OF assms] obtain pre post where
    e: "l = pre @ HalfStar # post" "addHalfStar l = insertAfterLastFullStar (pre @ post)" by blast
  show "length (filter isFullStar (addHalfStar l)) = Suc (length (filter isFullStar l))"
    using e by (simp add: filter_insertAfterLastFullStar)
  show "Suc (length (filter isHalfStar (addHalfStar l))) = length (filter isHalfStar l)"
    using e by (simp add: filter_insertAfterLastFullStar)
qed

lemma addHalfStar_counts_new:
  assumes "isStarChangeAllowed (lineTotal l) (1 / 2)" "filter isHalfStar l = []"
  shows "length (filter isFullStar (addHalfStar l)) = length (filter isFullStar l)"
    and "length (filter isHalfStar (addHalfStar l)) = 1"
  using assms by (simp_all add: addHalfStar_nohalf filter_atInsertionPoint)

lemma removeHalfStar_counts_half:
  assumes "isStarChangeAllowed (lineTotal l) (- (1 / 2))" "filter isHalfStar l \<noteq> []"
  shows "length (filter isFullStar (removeHalfStar l)) = length (filter isFullStar l)"
    and "Suc (length (filter isHalfStar (removeHalfStar l))) = length (filter isHalfStar l)"
proof -
  from removeHalfStar_half [OF assms] obtain pre post where
    e: "l = pre @ HalfStar # post" "removeHalfStar l = pre @ post" by blast
  show "length (filter isFullStar (removeHalfStar l)) = length (filter isFullStar l)"
    using e by simp
  show "Suc (length (filter isHalfStar (removeHalfStar l))) = length (filter isHalfStar l)"
    using e by simp
qed

lemma removeHalfStar_counts_convert:
  assumes "isStarChangeAllowed (lineTotal l) (- (1 / 2))" "filter isHalfStar l = []"
    "filter isFullStar l \<noteq> []"
  shows "Suc (length (filter isFullStar (removeHalfStar l))) = length (filter isFullStar l)"
    and "length (filter isHalfStar (removeHalfStar l)) = 1"
proof -
  from removeHalfStar_convert [OF assms] obtain pre post where
    e: "l = pre @ FullStar # post" "removeHalfStar l = pre @ HalfStar # post" by blast
  show "Suc (length (filter isFullStar (removeHalfStar l))) = length (filter isFullStar l)"
    using e by simp
  show "length (filter isHalfStar (removeHalfStar l)) = 1"
    using e assms(2) by simp
qed

text \<open>The effect of each accepted mutation on the total.\<close>

lemma addFullStar_total:
  "isStarChangeAllowed (lineTotal l) 1 \<Longrightarrow> lineTotal (addFullStar l) = lineTotal l + 1"
  by (simp add: lineTotal_eq addFullStar_counts)

lemma removeFullStar_total:
  assumes "isStarChangeAllowed (lineTotal l) (- 1)" "filter isFullStar l \<noteq> []"
  shows "lineTotal (removeFullStar l) = lineTotal l - 1"
  using removeFullStar_counts [OF assms] by (simp add: lineTotal_eq)

lemma addHalfStar_total:
  assumes "isStarChangeAllowed (lineTotal l) (1 / 2)"
  shows "lineTotal (addHalfStar l) = lineTotal l + 1 / 2"
proof (cases "filter isHalfStar l = []")
  case True
  then show ?thesis using addHalfStar_counts_new [OF assms True] by (simp add: lineTotal_eq)
next
  case False
  then show ?thesis using addHalfStar_counts_merge [OF assms False] by (simp add: lineTotal_eq)
qed

lemma removeHalfStar_total:
  assumes "isStarChangeAllowed (lineTotal l) (- (1 / 2))"
  shows "lineTotal (removeHalfStar l) = lineTotal l - 1 / 2"
proof (cases "filter isHalfStar l = []")
  case True
  have "filter isFullStar l \<noteq> []"
  proof
    assume "filter isFullStar l = []"
    with True have "lineTotal l = 0" by (simp add: lineTotal_eq)
    with assms show False by (simp add: isStarChangeAllowed_iff)
  qed
  from removeHalfStar_counts_convert [OF assms True this] True show ?thesis
    by (simp add: lineTotal_eq)
next
  case False
  then show ?thesis using removeHalfStar_counts_half [OF assms False] by (simp add: lineTotal_eq)
qed

section \<open>The line display and the page\<close>

lemma updateLineDisplay_shape:
  "(\<exists>pre x post t c. l = pre @ x # post \<and> isStarCount x \<and> filter isStarCount pre = []
        \<and> updateLineDisplay l sc = pre @ StarCount t c (fontWeight x) # post)
   \<or> (\<exists>t c. filter isStarCount l = [] \<and> updateLineDisplay l sc = l @ [StarCount t c ''bold''])"
proof (cases "querySelector isStarCount l")
  case None
  then have "filter isStarCount l = []" by (simp add: querySelector_None)
  moreover from None have "\<exists>t c. updateLineDisplay l sc = l @ [StarCount t c ''bold'']"
    by (simp add: updateLineDisplay_def Let_def createCountDisplayElement_def appendChild_def)
  ultimately show ?thesis by blast
next
  case (Some k)
  from querySelector_Some [OF Some] obtain pre x post where d:
    "l = pre @ x # post" "length pre = k" "isStarCount x" "filter isStarCount pre = []" by blast
  from Some d(1,2) have "\<exists>t c. updateLineDisplay l sc = pre @ StarCount t c (fontWeight x) # post"
    by (auto simp: updateLineDisplay_def Let_def)
  with d show ?thesis by blast
qed

lemma filter_updateLineDisplay:
  assumes "\<And>t c w. \<not> P (StarCount t c w)"
  shows "filter P (updateLineDisplay l sc) = filter P l"
proof -
  from updateLineDisplay_shape [of l sc] show ?thesis
  proof (elim disjE exE conjE)
    fix pre x post t c
    assume "l = pre @ x # post" "isStarCount x"
      "updateLineDisplay l sc = pre @ StarCount t c (fontWeight x) # post"
    then show ?thesis using assms by (cases x) auto
  next
    fix t c
    assume "updateLineDisplay l sc = l @ [StarCount t c ''bold'']"
    then show ?thesis using assms by simp
  qed
qed

lemma lineTotal_updateLineDisplay [simp]: "lineTotal (updateLineDisplay l sc) = lineTotal l"
  by (simp add: lineTotal_eq filter_updateLineDisplay)

lemma markers_updateLineDisplay [simp]: "markers (updateLineDisplay l sc) = markers l"
  by (simp add: markers_def filter_updateLineDisplay isMarker_def)

lemma calculateTotalStars_sum: "calculateTotalStars p = sumOfLineTotals p"
proof -
  have "foldl (\<lambda>tot line. tot + total (countStarsInLine line)) a ls
          = a + sum_list (map lineTotal ls)" for a ls
    by (induction ls arbitrary: a) (simp_all add: lineTotal_def add.assoc)
  then show ?thesis by (simp add: calculateTotalStars_def sumOfLineTotals_def)
qed

lemma calculateTotalFromCounts_sum:
  "calculateTotalFromCounts cs = sum_list (map total cs)"
proof -
  have "foldl (\<lambda>sum count. sum + total count) a cs = a + sum_list (map total cs)" for a
    by (induction cs arbitrary: a) (simp_all add: add.assoc)
  then show ?thesis by (simp add: calculateTotalFromCounts_def)
qed

lemma updateTotalDisplay_cases:
  "updateTotalDisplay p t =
     (if totalDisplay p = None \<and> \<not> mainContainer p then Thrown TypeError p
      else Returned (p\<lparr>totalDisplay :=
             Some (''Total: '' @ numberToString (case t of Some v \<Rightarrow> v | None \<Rightarrow> calculateTotalStars p)
                   @ '' STARS'')\<rparr>))"
  by (cases "totalDisplay p")
     (simp_all add: updateTotalDisplay_def getTotalDisplay_def createTotalDisplayElement_def Let_def)

lemma handleStarChange_rejected:
  assumes "i < length (lines p)" "\<not> isStarChangeAllowed (lineTotal (lines p ! i)) d"
  shows "handleStarChange p i d = Returned p"
  using assms by (simp add: handleStarChange_def lineTotal_def Let_def)

lemma handleStarChange_accepted:
  assumes "i < length (lines p)" "isStarChangeAllowed (lineTotal (lines p ! i)) d"
  shows "handleStarChange p i d =
           updateTotalDisplay
             (p\<lparr>lines := (lines p)[i := updateLineDisplay (mutateLine d (lines p ! i))
                            (Some (countStarsInLine (mutateLine d (lines p ! i))))]\<rparr>) None"
  using assms by (simp add: handleStarChange_def lineTotal_def Let_def mutateLine_def)

lemma lines_finalPage_updateTotalDisplay [simp]:
  "lines (finalPage (updateTotalDisplay p t)) = lines p"
  by (simp add: updateTotalDisplay_cases)

lemma handleStarChange_line:
  assumes "i < length (lines p)" "isStarChangeAllowed (lineTotal (lines p ! i)) d"
  shows "lines (finalPage (handleStarChange p i d)) ! i =
           updateLineDisplay (mutateLine d (lines p ! i))
              (Some (countStarsInLine (mutateLine d (lines p ! i))))"
  using assms by (simp add: handleStarChange_accepted)

lemma handleStarChange_other_lines:
  assumes "j \<noteq> i"
  shows "lines (finalPage (handleStarChange p i d)) ! j = lines p ! j"
proof (cases "i < length (lines p)")
  case False
  then show ?thesis by (simp add: handleStarChange_def)
next
  case True
  show ?thesis
  proof (cases "isStarChangeAllowed (lineTotal (lines p ! i)) d")
    case False
    with True show ?thesis by (simp add: handleStarChange_rejected)
  next
    case acc: True
    with True assms show ?thesis by (simp add: handleStarChange_accepted)
  qed
qed

lemma mutateLine_total:
  assumes "d \<in> {1, - 1, 1 / 2, - (1 / 2)}" "isStarChangeAllowed (lineTotal l) d"
    "fullStars (countStarsInLine l) > 0 \<or> d \<noteq> - 1"
  shows "lineTotal (mutateLine d l) = lineTotal l + d"
proof -
  consider "d = 1" | "d = - 1" | "d = 1 / 2" | "d = - (1 / 2)" using assms(1) by auto
  then show ?thesis
  proof cases
    case 1
    with assms(2) show ?thesis by (simp add: mutateLine_def addFullStar_total)
  next
    case 2
    with assms(3) have "filter isFullStar l \<noteq> []" by (auto simp: countStarsInLine_eq)
    with 2 assms(2) show ?thesis by (simp add: mutateLine_def removeFullStar_total)
  next
    case 3
    with assms(2) show ?thesis by (simp add: mutateLine_def addHalfStar_total)
  next
    case 4
    with assms(2) show ?thesis by (simp add: mutateLine_def removeHalfStar_total)
  qed
qed

lemma mutateLine_no_full:
  assumes "fullStars (countStarsInLine l) = 0"
  shows "mutateLine (- 1) l = l"
  using assms by (simp add: mutateLine_def countStarsInLine_eq removeFullStar_none)

section \<open>Marker sequences\<close>

lemma isMarker_simps [simp]:
  "isMarker FullStar" "isMarker HalfStar" "\<not> isMarker (StarCount t c w)"
  "\<not> isMarker StarControls" "\<not> isMarker OtherNode"
  by (simp_all add: isMarker_def)

lemma markers_append [simp]: "markers (a @ b) = markers a @ markers b"
  by (simp add: markers_def)

lemma markers_Nil [simp]: "markers [] = []"
  by (simp add: markers_def)

lemma markers_Cons [simp]:
  "markers (x # xs) = (if isMarker x then x # markers xs else markers xs)"
  by (simp add: markers_def)

lemma markers_take_drop: "markers (take k l) @ markers (drop k l) = markers l"
  by (metis append_take_drop_id markers_append)

lemma filter_full_markers: "filter isFullStar (markers l) = filter isFullStar l"
  by (induction l) (auto simp: isMarker_def)

lemma filter_half_markers: "filter isHalfStar (markers l) = filter isHalfStar l"
  by (induction l) (auto simp: isMarker_def)

lemma set_markers: "x \<in> set (markers l) \<Longrightarrow> x = FullStar \<or> x = HalfStar"
  by (auto simp: markers_def isMarker_def)

lemma counts_of_markers:
  assumes "markers l = replicate n FullStar @ replicate h HalfStar"
  shows "length (filter isFullStar l) = n" "length (filter isHalfStar l) = h"
proof -
  have "filter isFullStar l = filter isFullStar (markers l)"
    by (simp only: filter_full_markers)
  also have "\<dots> = filter isFullStar (replicate n FullStar @ replicate h HalfStar)"
    by (simp only: assms)
  finally show "length (filter isFullStar l) = n" by simp
  have "filter isHalfStar l = filter isHalfStar (markers l)"
    by (simp only: filter_half_markers)
  also have "\<dots> = filter isHalfStar (replicate n FullStar @ replicate h HalfStar)"
    by (simp only: assms)
  finally show "length (filter isHalfStar l) = h" by simp
qed

lemma canonicalMarkersI:
  assumes "markers l = replicate n FullStar @ replicate h HalfStar" "h \<le> 1"
  shows "canonicalMarkers l"
proof -
  have c: "fullStars (countStarsInLine l) = n" "halfStars (countStarsInLine l) = h"
    using counts_of_markers [OF assms(1)] by (simp_all add: countStarsInLine_eq)
  show ?thesis unfolding canonicalMarkers_def c using assms by simp
qed

lemma canonicalMarkersD:
  assumes "canonicalMarkers l"
  shows "markers l = replicate (length (filter isFullStar l)) FullStar
                     @ replicate (length (filter isHalfStar l)) HalfStar"
    and "length (filter isHalfStar l) \<le> 1"
  using assms by (simp_all add: canonicalMarkers_def countStarsInLine_eq)

text \<open>Splitting a canonical marker sequence at a half star or at its last full star.\<close>

lemma split_at_half:
  assumes "xs @ HalfStar # ys = replicate n FullStar @ replicate h HalfStar" "h \<le> 1"
    "HalfStar \<notin> set xs"
  shows "xs = replicate n FullStar \<and> ys = [] \<and> h = 1"
  using assms
proof (induction n arbitrary: xs)
  case 0
  from "0.prems"(1) have "h \<noteq> 0" by (cases h) simp_all
  with "0.prems"(2) have h: "h = 1" by simp
  show ?case
  proof (cases xs)
    case Nil
    with "0.prems"(1) h show ?thesis by simp
  next
    case (Cons x xs')
    with "0.prems"(1) h show ?thesis by simp
  qed
next
  case (Suc n)
  show ?case
  proof (cases xs)
    case Nil
    with Suc.prems(1) show ?thesis by simp
  next
    case (Cons x xs')
    with Suc.prems(1) have x: "x = FullStar"
      and eq: "xs' @ HalfStar # ys = replicate n FullStar @ replicate h HalfStar"
      by simp_all
    from Cons Suc.prems(3) have "HalfStar \<notin> set xs'" by simp
    from Suc.IH [OF eq Suc.prems(2) this] Cons x show ?thesis by simp
  qed
qed

lemma split_at_last_full:
  assumes "xs @ FullStar # ys = replicate n FullStar @ replicate h HalfStar"
    "FullStar \<notin> set ys"
  shows "\<exists>n'. n = Suc n' \<and> xs = replicate n' FullStar \<and> ys = replicate h HalfStar"
  using assms
proof (induction n arbitrary: xs)
  case 0
  have "FullStar \<in> set (xs @ FullStar # ys)" by simp
  with "0.prems"(1) have "FullStar \<in> set (replicate h HalfStar)" by simp
  then show ?case by simp
next
  case (Suc n)
  show ?case
  proof (cases xs)
    case Nil
    with Suc.prems(1) have ys: "ys = replicate n FullStar @ replicate h HalfStar" by simp
    have "n = 0"
    proof (cases n)
      case 0
      then show ?thesis .
    next
      case (Suc m)
      with ys have "FullStar \<in> set ys" by simp
      with Suc.prems(2) show ?thesis by simp
    qed
    with ys Nil show ?thesis by simp
  next
    case (Cons x xs')
    with Suc.prems(1) have x: "x = FullStar"
      and eq: "xs' @ FullStar # ys = replicate n FullStar @ replicate h HalfStar"
      by simp_all
    from Suc.IH [OF eq Suc.prems(2)] obtain n' where
      "n = Suc n'" "xs' = replicate n' FullStar" "ys = replicate h HalfStar" by blast
    with Cons x show ?thesis by simp
  qed
qed

section \<open>The insertion point\<close>

lemma querySelector_first:
  "filter P a = [] \<Longrightarrow> P x \<Longrightarrow> querySelector P (a @ x # b) = Some (length a)"
  by (induction a) (auto split: if_splits)

lemma querySelector_bound: "querySelector P l = Some k \<Longrightarrow> k < length l \<and> P (l ! k)"
proof -
  assume "querySelector P l = Some k"
  from querySelector_Some [OF this] obtain pre x post where
    "l = pre @ x # post" "length pre = k" "P x" by blast
  then show ?thesis by auto
qed

lemma findStarInsertionPoint_skip:
  assumes "isMarker m"
  shows "findStarInsertionPoint (a @ m # b) =
           map_option (\<lambda>k. if k < length a then k else Suc k) (findStarInsertionPoint (a @ b))"
proof -
  from assms have "\<not> isStarCount m" "\<not> isStarControls m"
    by (cases m; simp)+
  then show ?thesis
    by (simp add: findStarInsertionPoint_def querySelector_skip split: option.splits)
qed

lemma findStarInsertionPoint_bound:
  assumes "findStarInsertionPoint l = Some k"
  shows "k < length l" "\<not> isMarker (l ! k)"
proof -
  from assms have "(querySelector isStarCount l = Some k) \<or> (querySelector isStarControls l = Some k)"
    by (auto simp: findStarInsertionPoint_def split: option.splits)
  then have "k < length l \<and> (isStarCount (l ! k) \<or> isStarControls (l ! k))"
    using querySelector_bound by blast
  then show "k < length l" "\<not> isMarker (l ! k)"
    by (cases "l ! k"; simp)+
qed

lemma starsBeforeInsertionPoint_marker:
  assumes "isMarker m"
  shows "starsBeforeInsertionPoint (a @ m # b) =
           (starsBeforeInsertionPoint (a @ b) \<and>
            (\<forall>k. findStarInsertionPoint (a @ b) = Some k \<longrightarrow> length a \<le> k))"
proof (cases "findStarInsertionPoint (a @ b)")
  case None
  then show ?thesis
    by (simp add: starsBeforeInsertionPoint_def findStarInsertionPoint_skip [OF assms])
next
  case (Some k)
  show ?thesis
  proof (cases "k < length a")
    case True
    with Some assms show ?thesis
      by (simp add: starsBeforeInsertionPoint_def findStarInsertionPoint_skip [OF assms])
  next
    case False
    then have "drop (Suc k) (a @ m # b) = drop k (a @ b)"
      by (simp add: Suc_diff_le)
    with Some False show ?thesis
      by (simp add: starsBeforeInsertionPoint_def findStarInsertionPoint_skip [OF assms])
  qed
qed

lemma insertion_point_after_marker:
  assumes "starsBeforeInsertionPoint (a @ m # b)" "isMarker m"
    "findStarInsertionPoint (a @ m # b) = Some k"
  shows "length a < k"
proof (rule ccontr)
  assume "\<not> length a < k"
  then have "drop k (a @ m # b) = drop k a @ m # b" by simp
  with assms show False by (simp add: starsBeforeInsertionPoint_def)
qed

lemma atInsertionPoint_marker:
  assumes "starsBeforeInsertionPoint l" "isMarker m"
  shows "markers (atInsertionPoint l m) = markers l @ [m]"
    and "starsBeforeInsertionPoint (atInsertionPoint l m)"
proof -
  show "markers (atInsertionPoint l m) = markers l @ [m]"
  proof (cases "findStarInsertionPoint l")
    case None
    with assms show ?thesis by (simp add: atInsertionPoint_def)
  next
    case (Some k)
    with assms(1) have "markers (drop k l) = []" by (simp add: starsBeforeInsertionPoint_def)
    with markers_take_drop [of k l] have "markers (take k l) = markers l" by simp
    with Some assms(2) \<open>markers (drop k l) = []\<close> show ?thesis
      by (simp add: atInsertionPoint_def)
  qed
  show "starsBeforeInsertionPoint (atInsertionPoint l m)"
  proof (cases "findStarInsertionPoint l")
    case None
    then have "atInsertionPoint l m = l @ m # []" by (simp add: atInsertionPoint_def)
    moreover have "starsBeforeInsertionPoint (l @ m # [])"
      using assms None by (simp add: starsBeforeInsertionPoint_marker)
    ultimately show ?thesis by simp
  next
    case (Some k)
    then have "atInsertionPoint l m = take k l @ m # drop k l" by (simp add: atInsertionPoint_def)
    moreover have "starsBeforeInsertionPoint (take k l @ m # drop k l)"
      using assms Some by (simp add: starsBeforeInsertionPoint_marker)
    ultimately show ?thesis by simp
  qed
qed

section \<open>The mutations on well-formed lines\<close>

lemma no_half_markers: "filter isHalfStar l = [] \<Longrightarrow> HalfStar \<notin> set (markers l)"
  by (auto simp: markers_def filter_empty_conv)

lemma no_full_markers: "filter isFullStar l = [] \<Longrightarrow> FullStar \<notin> set (markers l)"
  by (auto simp: markers_def filter_empty_conv)

lemma all_full_replicate:
  assumes "xs @ ys = replicate n FullStar"
  shows "xs @ FullStar # ys = replicate (Suc n) FullStar"
proof -
  have "set (xs @ ys) \<subseteq> {FullStar}" by (simp only: assms) auto
  then have every: "\<And>y. y \<in> set (xs @ FullStar # ys) \<Longrightarrow> y = FullStar" by auto
  have "length (xs @ ys) = n" by (simp only: assms) simp
  then have len: "length (xs @ FullStar # ys) = Suc n" by simp
  show ?thesis by (rule replicate_eqI [OF len every])
qed

subsection \<open>Starting from canonical markers: the marker sequence after each mutation\<close>

lemma atInsertionPoint_full_markers:
  assumes "markers l = replicate n FullStar"
  shows "markers (atInsertionPoint l FullStar) = replicate (Suc n) FullStar"
proof -
  from atInsertionPoint_shape [of l FullStar] obtain a b where
    e: "l = a @ b" "atInsertionPoint l FullStar = a @ FullStar # b" by blast
  from assms e(1) have "markers a @ markers b = replicate n FullStar" by simp
  from all_full_replicate [OF this] e(2) show ?thesis by simp
qed

lemma addFullStar_markers:
  assumes "canonicalMarkers l" "isStarChangeAllowed (lineTotal l) 1"
  shows "markers (addFullStar l) = FullStar # markers l"
proof -
  note c = canonicalMarkersD [OF assms(1)]
  show ?thesis
  proof (cases "filter isHalfStar l = []")
    case True
    with c(1) have m: "markers l = replicate (length (filter isFullStar l)) FullStar" by simp
    from atInsertionPoint_full_markers [OF m] True assms(2) m show ?thesis
      by (simp add: addFullStar_nohalf)
  next
    case False
    from addFullStar_half [OF assms(2) False] obtain pre post where d:
      "l = pre @ HalfStar # post" "filter isHalfStar pre = []"
      "addFullStar l = pre @ FullStar # HalfStar # post" by blast
    from c(1) d(1) have "markers pre @ HalfStar # markers post
        = replicate (length (filter isFullStar l)) FullStar
          @ replicate (length (filter isHalfStar l)) HalfStar" by simp
    from split_at_half [OF this c(2) no_half_markers [OF d(2)]]
    have s: "markers pre = replicate (length (filter isFullStar l)) FullStar" "markers post = []"
      by simp_all
    show ?thesis
      by (simp add: d(3)) (simp add: d(1) s replicate_append_same)
  qed
qed

lemma removeFullStar_markers:
  assumes "canonicalMarkers l" "isStarChangeAllowed (lineTotal l) (- 1)"
    "filter isFullStar l \<noteq> []"
  shows "FullStar # markers (removeFullStar l) = markers l"
proof -
  note c = canonicalMarkersD [OF assms(1)]
  from removeFullStar_some [OF assms(2,3)] obtain pre post where d:
    "l = pre @ FullStar # post" "filter isFullStar post = []"
    "removeFullStar l = pre @ post" by blast
  from c(1) d(1) have "markers pre @ FullStar # markers post
      = replicate (length (filter isFullStar l)) FullStar
        @ replicate (length (filter isHalfStar l)) HalfStar" by simp
  from split_at_last_full [OF this no_full_markers [OF d(2)]] obtain n' where s:
    "length (filter isFullStar l) = Suc n'" "markers pre = replicate n' FullStar"
    "markers post = replicate (length (filter isHalfStar l)) HalfStar" by blast
  have "markers l = FullStar # markers (removeFullStar l)"
    by (subst c(1)) (simp add: d(3) s)
  then show ?thesis by simp
qed

lemma insertAfterLastFullStar_shape:
  "\<exists>a b. l = a @ b \<and> insertAfterLastFullStar l = a @ FullStar # b"
proof (cases "filter isFullStar l = []")
  case True
  then show ?thesis by (simp add: insertAfterLastFullStar_none atInsertionPoint_shape)
next
  case False
  from insertAfterLastFullStar_some [OF False] obtain a b where e:
    "l = a @ FullStar # b"
    "insertAfterLastFullStar l =
       (if b = [] then atInsertionPoint l FullStar else a @ FullStar # FullStar # b)"
    by blast
  show ?thesis
  proof (cases "b = []")
    case True
    with e(2) show ?thesis by (simp add: atInsertionPoint_shape)
  next
    case False
    with e have "l = (a @ [FullStar]) @ b
        \<and> insertAfterLastFullStar l = (a @ [FullStar]) @ FullStar # b" by simp
    then show ?thesis by blast
  qed
qed

lemma insertAfterLastFullStar_markers:
  assumes "markers l = replicate n FullStar"
  shows "markers (insertAfterLastFullStar l) = replicate (Suc n) FullStar"
proof -
  from insertAfterLastFullStar_shape [of l] obtain a b where
    e: "l = a @ b" "insertAfterLastFullStar l = a @ FullStar # b" by blast
  from assms e(1) have "markers a @ markers b = replicate n FullStar" by simp
  from all_full_replicate [OF this] e(2) show ?thesis by simp
qed

lemma addHalfStar_merge_markers:
  assumes "canonicalMarkers l" "isStarChangeAllowed (lineTotal l) (1 / 2)"
    "filter isHalfStar l \<noteq> []"
  shows "markers l = replicate (length (filter isFullStar l)) FullStar @ [HalfStar]"
    and "markers (addHalfStar l) = replicate (length (filter isFullStar l)) FullStar @ [FullStar]"
proof -
  note c = canonicalMarkersD [OF assms(1)]
  let ?n = "length (filter isFullStar l)"
  from addHalfStar_merge [OF assms(2,3)] obtain pre post where d:
    "l = pre @ HalfStar # post" "filter isHalfStar pre = []"
    "addHalfStar l = insertAfterLastFullStar (pre @ post)" by blast
  from c(1) d(1) have "markers pre @ HalfStar # markers post
      = replicate ?n FullStar @ replicate (length (filter isHalfStar l)) HalfStar" by simp
  from split_at_half [OF this c(2) no_half_markers [OF d(2)]]
  have s: "markers pre = replicate ?n FullStar" "markers post = []"
    "length (filter isHalfStar l) = 1" by simp_all
  from c(1) s(3) show "markers l = replicate ?n FullStar @ [HalfStar]" by simp
  from s have m1: "markers (pre @ post) = replicate ?n FullStar" by simp
  from insertAfterLastFullStar_markers [OF m1] d(3)
  show "markers (addHalfStar l) = replicate ?n FullStar @ [FullStar]"
    by (simp add: replicate_append_same)
qed

lemma addHalfStar_new_markers:
  assumes "starsBeforeInsertionPoint l" "isStarChangeAllowed (lineTotal l) (1 / 2)"
    "filter isHalfStar l = []"
  shows "markers (addHalfStar l) = markers l @ [HalfStar]"
  using assms by (simp add: addHalfStar_nohalf atInsertionPoint_marker)

lemma removeHalfStar_half_markers:
  assumes "canonicalMarkers l" "isStarChangeAllowed (lineTotal l) (- (1 / 2))"
    "filter isHalfStar l \<noteq> []"
  shows "markers l = replicate (length (filter isFullStar l)) FullStar @ [HalfStar]"
    and "markers (removeHalfStar l) = replicate (length (filter isFullStar l)) FullStar"
proof -
  note c = canonicalMarkersD [OF assms(1)]
  let ?n = "length (filter isFullStar l)"
  from removeHalfStar_half [OF assms(2,3)] obtain pre post where d:
    "l = pre @ HalfStar # post" "filter isHalfStar pre = []"
    "removeHalfStar l = pre @ post" by blast
  from c(1) d(1) have "markers pre @ HalfStar # markers post
      = replicate ?n FullStar @ replicate (length (filter isHalfStar l)) HalfStar" by simp
  from split_at_half [OF this c(2) no_half_markers [OF d(2)]]
  have s: "markers pre = replicate ?n FullStar" "markers post = []"
    "length (filter isHalfStar l) = 1" by simp_all
  from c(1) s(3) show "markers l = replicate ?n FullStar @ [HalfStar]" by simp
  from s d(3) show "markers (removeHalfStar l) = replicate ?n FullStar" by simp
qed

lemma removeHalfStar_convert_markers:
  assumes "canonicalMarkers l" "isStarChangeAllowed (lineTotal l) (- (1 / 2))"
    "filter isHalfStar l = []" "filter isFullStar l \<noteq> []"
  shows "\<exists>n. markers l = replicate n FullStar @ [FullStar]
           \<and> markers (removeHalfStar l) = replicate n FullStar @ [HalfStar]"
proof -
  note c = canonicalMarkersD [OF assms(1)]
  from removeHalfStar_convert [OF assms(2,3,4)] obtain pre post where d:
    "l = pre @ FullStar # post" "filter isFullStar post = []"
    "removeHalfStar l = pre @ HalfStar # post" by blast
  from c(1) d(1) have "markers pre @ FullStar # markers post
      = replicate (length (filter isFullStar l)) FullStar
        @ replicate (length (filter isHalfStar l)) HalfStar" by simp
  from split_at_last_full [OF this no_full_markers [OF d(2)]] assms(3) obtain n' where s:
    "markers pre = replicate n' FullStar" "markers post = []" by auto
  from s d have "markers l = replicate n' FullStar @ [FullStar]
           \<and> markers (removeHalfStar l) = replicate n' FullStar @ [HalfStar]" by simp
  then show ?thesis by blast
qed

subsection \<open>No mutation puts a star behind the insertion point\<close>

lemma addFullStar_layout:
  assumes "starsBeforeInsertionPoint l"
  shows "starsBeforeInsertionPoint (addFullStar l)"
proof (cases "isStarChangeAllowed (lineTotal l) 1")
  case False
  with assms show ?thesis by (simp add: addFullStar_rejected)
next
  case True
  show ?thesis
  proof (cases "filter isHalfStar l = []")
    case nohalf: True
    with True assms show ?thesis by (simp add: addFullStar_nohalf atInsertionPoint_marker)
  next
    case False
    from addFullStar_half [OF True False] obtain pre post where d:
      "l = pre @ HalfStar # post" "addFullStar l = pre @ FullStar # HalfStar # post" by blast
    have "\<forall>k. findStarInsertionPoint (pre @ HalfStar # post) = Some k \<longrightarrow> length pre \<le> k"
      using insertion_point_after_marker [of pre HalfStar post] assms d(1)
      by (auto simp: less_imp_le)
    with assms d(1) have "starsBeforeInsertionPoint (pre @ HalfStar # post) \<and>
        (\<forall>k. findStarInsertionPoint (pre @ HalfStar # post) = Some k \<longrightarrow> length pre \<le> k)"
      by simp
    then have "starsBeforeInsertionPoint (pre @ FullStar # HalfStar # post)"
      by (rule starsBeforeInsertionPoint_marker [THEN iffD2, rotated]) simp
    with d(2) show ?thesis by simp
  qed
qed

lemma removeFullStar_layout:
  assumes "starsBeforeInsertionPoint l"
  shows "starsBeforeInsertionPoint (removeFullStar l)"
proof (cases "isStarChangeAllowed (lineTotal l) (- 1) \<and> filter isFullStar l \<noteq> []")
  case False
  with assms show ?thesis by (auto simp: removeFullStar_rejected removeFullStar_none)
next
  case True
  then obtain pre post where d: "l = pre @ FullStar # post" "removeFullStar l = pre @ post"
    using removeFullStar_some [of l] by blast
  from assms d(1) have "starsBeforeInsertionPoint (pre @ post)"
    by (simp add: starsBeforeInsertionPoint_marker [of FullStar pre post])
  with d(2) show ?thesis by simp
qed

lemma insertAfterLastFullStar_layout:
  assumes "starsBeforeInsertionPoint l1"
  shows "starsBeforeInsertionPoint (insertAfterLastFullStar l1)"
proof (cases "filter isFullStar l1 = []")
  case True
  with assms show ?thesis by (simp add: insertAfterLastFullStar_none atInsertionPoint_marker)
next
  case False
  from insertAfterLastFullStar_some [OF False] obtain a b where e:
    "l1 = a @ FullStar # b"
    "insertAfterLastFullStar l1 =
       (if b = [] then atInsertionPoint l1 FullStar else a @ FullStar # FullStar # b)"
    by blast
  show ?thesis
  proof (cases "b = []")
    case True
    with e(2) assms show ?thesis by (simp add: atInsertionPoint_marker)
  next
    case nonempty: False
    with e(2) have r: "insertAfterLastFullStar l1 = a @ FullStar # FullStar # b" by simp
    have "\<forall>k. findStarInsertionPoint (a @ FullStar # b) = Some k \<longrightarrow> length (a @ [FullStar]) \<le> k"
      using insertion_point_after_marker [of a FullStar b] assms e(1) by auto
    with assms e(1)
    have "starsBeforeInsertionPoint ((a @ [FullStar]) @ b) \<and>
          (\<forall>k. findStarInsertionPoint ((a @ [FullStar]) @ b) = Some k
               \<longrightarrow> length (a @ [FullStar]) \<le> k)"
      by simp
    then have "starsBeforeInsertionPoint ((a @ [FullStar]) @ FullStar # b)"
      by (rule starsBeforeInsertionPoint_marker [THEN iffD2, rotated]) simp
    with r show ?thesis by simp
  qed
qed

lemma addHalfStar_layout:
  assumes "starsBeforeInsertionPoint l"
  shows "starsBeforeInsertionPoint (addHalfStar l)"
proof (cases "isStarChangeAllowed (lineTotal l) (1 / 2)")
  case False
  with assms show ?thesis by (simp add: addHalfStar_rejected)
next
  case True
  show ?thesis
  proof (cases "filter isHalfStar l = []")
    case nohalf: True
    with True assms show ?thesis by (simp add: addHalfStar_nohalf atInsertionPoint_marker)
  next
    case False
    from addHalfStar_merge [OF True False] obtain pre post where d:
      "l = pre @ HalfStar # post" "addHalfStar l = insertAfterLastFullStar (pre @ post)" by blast
    from assms d(1) have "starsBeforeInsertionPoint (pre @ post)"
      by (simp add: starsBeforeInsertionPoint_marker [of HalfStar pre post])
    with d(2) show ?thesis by (simp add: insertAfterLastFullStar_layout)
  qed
qed

lemma removeHalfStar_layout:
  assumes "starsBeforeInsertionPoint l"
  shows "starsBeforeInsertionPoint (removeHalfStar l)"
proof (cases "isStarChangeAllowed (lineTotal l) (- (1 / 2))")
  case False
  with assms show ?thesis by (simp add: removeHalfStar_rejected)
next
  case True
  show ?thesis
  proof (cases "filter isHalfStar l = []")
    case False
    from removeHalfStar_half [OF True False] obtain pre post where d:
      "l = pre @ HalfStar # post" "removeHalfStar l = pre @ post" by blast
    from assms d(1) have "starsBeforeInsertionPoint (pre @ post)"
      by (simp add: starsBeforeInsertionPoint_marker [of HalfStar pre post])
    with d(2) show ?thesis by simp
  next
    case nohalf: True
    show ?thesis
    proof (cases "filter isFullStar l = []")
      case True
      with nohalf assms show ?thesis by (simp add: removeHalfStar_nothing)
    next
      case False
      from removeHalfStar_convert [OF True nohalf False] obtain pre post where d:
        "l = pre @ FullStar # post" "removeHalfStar l = pre @ HalfStar # post" by blast
      from assms d(1) have "starsBeforeInsertionPoint (pre @ HalfStar # post)"
        by (simp add: starsBeforeInsertionPoint_marker [of FullStar pre post]
                      starsBeforeInsertionPoint_marker [of HalfStar pre post])
      with d(2) show ?thesis by simp
    qed
  qed
qed

lemma updateLineDisplay_layout:
  assumes "starsBeforeInsertionPoint l"
  shows "starsBeforeInsertionPoint (updateLineDisplay l sc)"
proof -
  from updateLineDisplay_shape [of l sc] show ?thesis
  proof (elim disjE exE conjE)
    fix pre x post t c
    assume d: "l = pre @ x # post" "isStarCount x" "filter isStarCount pre = []"
      "updateLineDisplay l sc = pre @ StarCount t c (fontWeight x) # post"
    from d(2,3) have "querySelector isStarCount (pre @ x # post) = Some (length pre)"
      by (rule querySelector_first [rotated])
    with assms d(1) have "markers (x # post) = []"
      by (simp add: starsBeforeInsertionPoint_def findStarInsertionPoint_def)
    moreover from d(2) have "\<not> isMarker x" by (cases x) simp_all
    ultimately have "markers post = []" by simp
    moreover have "querySelector isStarCount (pre @ StarCount t c (fontWeight x) # post)
                     = Some (length pre)"
      using d(3) by (simp add: querySelector_first)
    ultimately show ?thesis
      by (simp add: d(4) starsBeforeInsertionPoint_def findStarInsertionPoint_def)
  next
    fix t c
    assume d: "filter isStarCount l = []" "updateLineDisplay l sc = l @ [StarCount t c ''bold'']"
    from d(1) have "querySelector isStarCount (l @ StarCount t c ''bold'' # []) = Some (length l)"
      by (simp add: querySelector_first)
    then show ?thesis
      by (simp add: d(2) starsBeforeInsertionPoint_def findStarInsertionPoint_def)
  qed
qed

text \<open>
  The first display update of a line without a count display appends one, and with it
  establishes the layout, whatever the line held before.
\<close>

lemma updateLineDisplay_establishes_layout:
  assumes "filter isStarCount l = []"
  shows "starsBeforeInsertionPoint (updateLineDisplay l sc)"
proof -
  from updateLineDisplay_shape [of l sc] assms obtain t c where
    d: "updateLineDisplay l sc = l @ [StarCount t c ''bold'']" by auto
  from assms have "querySelector isStarCount (l @ StarCount t c ''bold'' # []) = Some (length l)"
    by (simp add: querySelector_first)
  then show ?thesis
    by (simp add: d starsBeforeInsertionPoint_def findStarInsertionPoint_def)
qed

lemma countStarsInLine_updateLineDisplay [simp]:
  "countStarsInLine (updateLineDisplay l sc) = countStarsInLine l"
  by (simp add: countStarsInLine_eq filter_updateLineDisplay)

subsection \<open>Well-formed lines stay well-formed\<close>

lemma wellFormedLineI:
  assumes "markers l = replicate n FullStar @ replicate h HalfStar" "h \<le> 1"
    "starsBeforeInsertionPoint l"
  shows "wellFormedLine l"
  using assms canonicalMarkersI [of l n h] by (simp add: wellFormedLine_def)

lemma updateLineDisplay_wellFormed:
  "wellFormedLine l \<Longrightarrow> wellFormedLine (updateLineDisplay l sc)"
  by (simp add: wellFormedLine_def canonicalMarkers_def updateLineDisplay_layout)

lemma addFullStar_wellFormed:
  assumes "wellFormedLine l"
  shows "wellFormedLine (addFullStar l)"
proof (cases "isStarChangeAllowed (lineTotal l) 1")
  case False
  with assms show ?thesis by (simp add: addFullStar_rejected)
next
  case True
  from assms have c: "canonicalMarkers l" and s: "starsBeforeInsertionPoint l"
    by (simp_all add: wellFormedLine_def)
  from addFullStar_markers [OF c True] canonicalMarkersD [OF c]
  have "markers (addFullStar l) = replicate (Suc (length (filter isFullStar l))) FullStar
          @ replicate (length (filter isHalfStar l)) HalfStar" by simp
  from wellFormedLineI [OF this canonicalMarkersD(2) [OF c] addFullStar_layout [OF s]]
  show ?thesis .
qed

lemma removeFullStar_wellFormed:
  assumes "wellFormedLine l"
  shows "wellFormedLine (removeFullStar l)"
proof (cases "isStarChangeAllowed (lineTotal l) (- 1) \<and> filter isFullStar l \<noteq> []")
  case False
  with assms show ?thesis by (auto simp: removeFullStar_rejected removeFullStar_none)
next
  case True
  from assms have c: "canonicalMarkers l" and s: "starsBeforeInsertionPoint l"
    by (simp_all add: wellFormedLine_def)
  from True obtain n' where n': "length (filter isFullStar l) = Suc n'"
    by (cases "length (filter isFullStar l)") auto
  from True removeFullStar_markers [OF c] have "FullStar # markers (removeFullStar l) = markers l"
    by simp
  with canonicalMarkersD(1) [OF c] n'
  have "markers (removeFullStar l) = replicate n' FullStar
          @ replicate (length (filter isHalfStar l)) HalfStar" by simp
  from wellFormedLineI [OF this canonicalMarkersD(2) [OF c] removeFullStar_layout [OF s]]
  show ?thesis .
qed

lemma addHalfStar_wellFormed:
  assumes "wellFormedLine l"
  shows "wellFormedLine (addHalfStar l)"
proof (cases "isStarChangeAllowed (lineTotal l) (1 / 2)")
  case False
  with assms show ?thesis by (simp add: addHalfStar_rejected)
next
  case True
  from assms have c: "canonicalMarkers l" and s: "starsBeforeInsertionPoint l"
    by (simp_all add: wellFormedLine_def)
  show ?thesis
  proof (cases "filter isHalfStar l = []")
    case nohalf: True
    from addHalfStar_new_markers [OF s True nohalf] canonicalMarkersD(1) [OF c] nohalf
    have "markers (addHalfStar l) = replicate (length (filter isFullStar l)) FullStar
            @ replicate 1 HalfStar" by simp
    from wellFormedLineI [OF this _ addHalfStar_layout [OF s]] show ?thesis by simp
  next
    case False
    from addHalfStar_merge_markers(2) [OF c True False]
    have "markers (addHalfStar l) = replicate (Suc (length (filter isFullStar l))) FullStar
            @ replicate 0 HalfStar" by (simp add: replicate_append_same)
    from wellFormedLineI [OF this _ addHalfStar_layout [OF s]] show ?thesis by simp
  qed
qed

lemma removeHalfStar_wellFormed:
  assumes "wellFormedLine l"
  shows "wellFormedLine (removeHalfStar l)"
proof (cases "isStarChangeAllowed (lineTotal l) (- (1 / 2))")
  case False
  with assms show ?thesis by (simp add: removeHalfStar_rejected)
next
  case True
  from assms have c: "canonicalMarkers l" and s: "starsBeforeInsertionPoint l"
    by (simp_all add: wellFormedLine_def)
  show ?thesis
  proof (cases "filter isHalfStar l = []")
    case False
    from removeHalfStar_half_markers(2) [OF c True False]
    have "markers (removeHalfStar l) = replicate (length (filter isFullStar l)) FullStar
            @ replicate 0 HalfStar" by simp
    from wellFormedLineI [OF this _ removeHalfStar_layout [OF s]] show ?thesis by simp
  next
    case nohalf: True
    show ?thesis
    proof (cases "filter isFullStar l = []")
      case True
      with nohalf assms show ?thesis by (simp add: removeHalfStar_nothing)
    next
      case False
      from removeHalfStar_convert_markers [OF c True nohalf False] obtain n where
        "markers (removeHalfStar l) = replicate n FullStar @ replicate 1 HalfStar" by auto
      from wellFormedLineI [OF this _ removeHalfStar_layout [OF s]] show ?thesis by simp
    qed
  qed
qed

section \<open>Sequences of mutations and of button presses\<close>

lemma mutator_wellFormed: "wellFormedLine l \<Longrightarrow> wellFormedLine (mutator m l)"
  by (cases m)
     (simp_all add: addFullStar_wellFormed removeFullStar_wellFormed addHalfStar_wellFormed
        removeHalfStar_wellFormed)

lemma applyMutations_wellFormed:
  "wellFormedLine l \<Longrightarrow> wellFormedLine (applyMutations l ms)"
  by (induction ms arbitrary: l) (simp_all add: mutator_wellFormed)

lemma mutateLine_mutator: "mutateLine (changeAmountOf m) l = mutator m l"
  by (cases m) (simp_all add: mutateLine_def)

lemma handleStarChange_lines:
  "lines (finalPage (handleStarChange p i d)) =
     (if i < length (lines p) \<and> isStarChangeAllowed (lineTotal (lines p ! i)) d
      then (lines p)[i := updateLineDisplay (mutateLine d (lines p ! i))
                            (Some (countStarsInLine (mutateLine d (lines p ! i))))]
      else lines p)"
proof (cases "i < length (lines p)")
  case False
  then show ?thesis by (simp add: handleStarChange_def)
next
  case True
  then show ?thesis
    by (cases "isStarChangeAllowed (lineTotal (lines p ! i)) d")
       (simp_all add: handleStarChange_accepted handleStarChange_rejected)
qed

lemma handleStarChange_wellFormed:
  assumes "\<forall>l \<in> set (lines p). wellFormedLine l"
  shows "\<forall>l \<in> set (lines (finalPage (handleStarChange p i (changeAmountOf m)))). wellFormedLine l"
proof (cases "i < length (lines p) \<and> isStarChangeAllowed (lineTotal (lines p ! i)) (changeAmountOf m)")
  case False
  then have "lines (finalPage (handleStarChange p i (changeAmountOf m))) = lines p"
    by (auto simp: handleStarChange_lines)
  with assms show ?thesis by simp
next
  case True
  with assms have "wellFormedLine (lines p ! i)" by simp
  then have "wellFormedLine (updateLineDisplay (mutator m (lines p ! i))
                 (Some (countStarsInLine (mutator m (lines p ! i)))))"
    by (simp add: mutator_wellFormed updateLineDisplay_wellFormed)
  with True assms show ?thesis
    by (auto simp: handleStarChange_lines mutateLine_mutator dest!: set_update_subset_insert [THEN subsetD])
qed

lemma pressButtons_wellFormed:
  "\<forall>l \<in> set (lines p). wellFormedLine l \<Longrightarrow>
   \<forall>l \<in> set (lines (pressButtons p cs)). wellFormedLine l"
proof (induction cs arbitrary: p)
  case Nil
  then show ?case by simp
next
  case (Cons c cs)
  obtain i m where c: "c = (i, m)" by (cases c)
  from handleStarChange_wellFormed [OF Cons.prems, of i m]
  have "\<forall>l \<in> set (lines (pressButtons (finalPage (handleStarChange p i (changeAmountOf m))) cs)).
          wellFormedLine l"
    by (rule Cons.IH)
  with c show ?case by simp
qed

lemma others_addHalfStar:
  assumes "isStarChangeAllowed (lineTotal l) (1 / 2)"
  shows "filter (\<lambda>x. \<not> isMarker x) (addHalfStar l) = filter (\<lambda>x. \<not> isMarker x) l"
proof (cases "filter isHalfStar l = []")
  case True
  from atInsertionPoint_shape [of l HalfStar] obtain a b where
    "l = a @ b" "atInsertionPoint l HalfStar = a @ HalfStar # b" by blast
  with True assms show ?thesis by (simp add: addHalfStar_nohalf)
next
  case False
  from addHalfStar_merge [OF assms False] obtain pre post where d:
    "l = pre @ HalfStar # post" "addHalfStar l = insertAfterLastFullStar (pre @ post)" by blast
  from insertAfterLastFullStar_shape [of "pre @ post"] obtain a b where e:
    "pre @ post = a @ b" "insertAfterLastFullStar (pre @ post) = a @ FullStar # b" by blast
  have "filter (\<lambda>x. \<not> isMarker x) (a @ b) = filter (\<lambda>x. \<not> isMarker x) (pre @ post)"
    by (simp only: e(1))
  with d e(2) show ?thesis by simp
qed

lemma removeHalfStar_after_merge:
  assumes "markers l2 = replicate n FullStar @ [FullStar]"
    "isStarChangeAllowed (lineTotal l2) (- (1 / 2))"
  shows "markers (removeHalfStar l2) = replicate n FullStar @ [HalfStar]"
proof -
  from assms(1) have m: "markers l2 = replicate (Suc n) FullStar @ replicate 0 HalfStar"
    by (simp add: replicate_append_same)
  from canonicalMarkersI [OF m] have c: "canonicalMarkers l2" by simp
  from counts_of_markers [OF m] have nohalf: "filter isHalfStar l2 = []"
    and full: "filter isFullStar l2 \<noteq> []" by auto
  from removeHalfStar_convert_markers [OF c assms(2) nohalf full] obtain k where
    k: "markers l2 = replicate k FullStar @ [FullStar]"
       "markers (removeHalfStar l2) = replicate k FullStar @ [HalfStar]" by blast
  from k(1) assms(1) have "length (replicate k FullStar @ [FullStar])
                            = length (replicate n FullStar @ [FullStar])" by simp
  then have "k = n" by simp
  with k(2) show ?thesis by simp
qed

lemma sumOfLineTotals_lines_update [simp]:
  "sumOfLineTotals (p\<lparr>totalDisplay := t\<rparr>) = sumOfLineTotals p"
  by (simp add: sumOfLineTotals_def)

lemma in_range_after:
  assumes "1 \<le> lineTotal l \<and> lineTotal l \<le> 5"
  shows "1 \<le> lineTotal (addFullStar l) \<and> lineTotal (addFullStar l) \<le> 5"
    and "1 \<le> lineTotal (removeFullStar l) \<and> lineTotal (removeFullStar l) \<le> 5"
    and "1 \<le> lineTotal (addHalfStar l) \<and> lineTotal (addHalfStar l) \<le> 5"
    and "1 \<le> lineTotal (removeHalfStar l) \<and> lineTotal (removeHalfStar l) \<le> 5"
proof -
  show "1 \<le> lineTotal (addFullStar l) \<and> lineTotal (addFullStar l) \<le> 5"
  proof (cases "isStarChangeAllowed (lineTotal l) 1")
    case True
    then show ?thesis by (simp add: addFullStar_total) (simp add: isStarChangeAllowed_iff)
  next
    case False
    with assms show ?thesis by (simp add: addFullStar_rejected)
  qed
  show "1 \<le> lineTotal (removeFullStar l) \<and> lineTotal (removeFullStar l) \<le> 5"
  proof (cases "isStarChangeAllowed (lineTotal l) (- 1) \<and> filter isFullStar l \<noteq> []")
    case True
    then show ?thesis by (simp add: removeFullStar_total) (simp add: isStarChangeAllowed_iff)
  next
    case False
    with assms show ?thesis by (auto simp: removeFullStar_rejected removeFullStar_none)
  qed
  show "1 \<le> lineTotal (addHalfStar l) \<and> lineTotal (addHalfStar l) \<le> 5"
  proof (cases "isStarChangeAllowed (lineTotal l) (1 / 2)")
    case True
    then show ?thesis by (simp add: addHalfStar_total) (simp add: isStarChangeAllowed_iff)
  next
    case False
    with assms show ?thesis by (simp add: addHalfStar_rejected)
  qed
  show "1 \<le> lineTotal (removeHalfStar l) \<and> lineTotal (removeHalfStar l) \<le> 5"
  proof (cases "isStarChangeAllowed (lineTotal l) (- (1 / 2))")
    case True
    then show ?thesis by (simp add: removeHalfStar_total) (simp add: isStarChangeAllowed_iff)
  next
    case False
    with assms show ?thesis by (simp add: removeHalfStar_rejected)
  qed
qed

section \<open>The claims\<close>

subsection \<open>C1: the total after an accepted mutation\<close>

text \<open>
  C1, as amended. Take a line of the page that has at least one full star or whose
  total is at most 5, and a change amount among \<open>1, -1, 0.5, -0.5\<close> that
  \<open>isStarChangeAllowed\<close> accepts for the line's current total. After
  \<open>handleStarChange\<close> (whether it returns or the total display cannot be created)
  the total of the line lies in the closed range from 1 to 5. Unless the amount is
  \<open>-1\<close> and the line has no full star, the new total is the old total plus the
  amount.
\<close>

theorem accepted_mutation_total_in_range:
  assumes "i < length (lines p)"
    and "d \<in> {1, - 1, 1 / 2, - (1 / 2)}"
    and "isStarChangeAllowed (lineTotal (lines p ! i)) d"
    and "fullStars (countStarsInLine (lines p ! i)) > 0 \<or> lineTotal (lines p ! i) \<le> 5"
  shows "1 \<le> lineTotal (lines (finalPage (handleStarChange p i d)) ! i)
       \<and> lineTotal (lines (finalPage (handleStarChange p i d)) ! i) \<le> 5
       \<and> (fullStars (countStarsInLine (lines p ! i)) > 0 \<or> d \<noteq> - 1 \<longrightarrow>
            lineTotal (lines (finalPage (handleStarChange p i d)) ! i)
              = lineTotal (lines p ! i) + d)"
proof -
  let ?l = "lines p ! i"
  have after: "lineTotal (lines (finalPage (handleStarChange p i d)) ! i) = lineTotal (mutateLine d ?l)"
    using assms(1,3) by (simp add: handleStarChange_line)
  show ?thesis
  proof (cases "fullStars (countStarsInLine ?l) > 0 \<or> d \<noteq> - 1")
    case True
    from mutateLine_total [OF assms(2,3) True] assms(3) after True show ?thesis
      by (simp add: isStarChangeAllowed_iff)
  next
    case False
    then have d: "d = - 1" and nofull: "fullStars (countStarsInLine ?l) = 0" by auto
    with assms(4) have "lineTotal ?l \<le> 5" by simp
    moreover from assms(3) d have "2 \<le> lineTotal ?l" by (simp add: isStarChangeAllowed_iff)
    ultimately show ?thesis using after d False mutateLine_no_full [OF nofull] by simp
  qed
qed

text \<open>A line with two full stars and a half star, and the change amount \<open>0.5\<close>.\<close>

theorem accepted_mutation_total_in_range_witness:
  "(0::nat) < length (lines \<lparr>lines = [[FullStar, FullStar, HalfStar]], mainContainer = True, totalDisplay = None\<rparr>)
   \<and> isStarChangeAllowed (lineTotal [FullStar, FullStar, HalfStar]) (1 / 2)
   \<and> fullStars (countStarsInLine [FullStar, FullStar, HalfStar]) > 0
   \<and> 1 \<le> lineTotal (lines (finalPage (handleStarChange
             \<lparr>lines = [[FullStar, FullStar, HalfStar]], mainContainer = True, totalDisplay = None\<rparr>
             0 (1 / 2))) ! 0)
   \<and> lineTotal (lines (finalPage (handleStarChange
             \<lparr>lines = [[FullStar, FullStar, HalfStar]], mainContainer = True, totalDisplay = None\<rparr>
             0 (1 / 2))) ! 0) \<le> 5"
proof -
  let ?p = "\<lparr>lines = [[FullStar, FullStar, HalfStar]], mainContainer = True, totalDisplay = None\<rparr>"
  have h1: "0 < length (lines ?p)" by simp
  have h2: "(1 / 2 :: rat) \<in> {1, - 1, 1 / 2, - (1 / 2)}" by simp
  have h3: "isStarChangeAllowed (lineTotal (lines ?p ! 0)) (1 / 2)"
    by (simp add: lineTotal_eq isStarChangeAllowed_iff)
  have h4: "fullStars (countStarsInLine (lines ?p ! 0)) > 0 \<or> lineTotal (lines ?p ! 0) \<le> 5"
    by (simp add: countStarsInLine_eq)
  from accepted_mutation_total_in_range [OF h1 h2 h3 h4] h3 show ?thesis
    by (simp add: countStarsInLine_eq)
qed

text \<open>
  The claim as stated fails on a line of eleven half stars and no full star: its total
  is 5.5, the change \<open>-1\<close> is accepted because 4.5 lies in the range,
  \<open>removeFullStar\<close> finds no full star to remove, and the total stays at 5.5.
\<close>

theorem accepted_mutation_total_counterexample:
  "isStarChangeAllowed (lineTotal (replicate 11 HalfStar)) (- 1)
   \<and> lineTotal (lines (finalPage (handleStarChange
         \<lparr>lines = [replicate 11 HalfStar], mainContainer = True, totalDisplay = None\<rparr> 0 (- 1))) ! 0)
       = 11 / 2
   \<and> \<not> lineTotal (lines (finalPage (handleStarChange
         \<lparr>lines = [replicate 11 HalfStar], mainContainer = True, totalDisplay = None\<rparr> 0 (- 1))) ! 0)
         \<le> 5"
proof -
  let ?l = "replicate 11 HalfStar"
  let ?p = "\<lparr>lines = [?l], mainContainer = True, totalDisplay = None\<rparr>"
  have t: "lineTotal ?l = 11 / 2" by (simp add: lineTotal_eq)
  have acc: "isStarChangeAllowed (lineTotal ?l) (- 1)"
    by (simp add: t isStarChangeAllowed_iff)
  have "mutateLine (- 1) ?l = ?l"
    by (rule mutateLine_no_full) (simp add: countStarsInLine_eq)
  with acc have "lines (finalPage (handleStarChange ?p 0 (- 1))) ! 0
                   = updateLineDisplay ?l (Some (countStarsInLine ?l))"
    by (simp add: handleStarChange_line)
  then have "lineTotal (lines (finalPage (handleStarChange ?p 0 (- 1))) ! 0) = 11 / 2"
    by (simp add: t)
  with acc show ?thesis by simp
qed

subsection \<open>C2: at most one half star, after the full stars\<close>

text \<open>
  C2, as amended. Take a line that starts with at most one half star, placed after
  all its full stars, and with no star at or behind its insertion point. After every
  sequence of calls of the four mutation functions the line has no or one half star,
  and its marker sequence is its full stars followed by its half star. The same holds
  of every line of a page whose lines all start that way, after every sequence of
  button presses.
\<close>

theorem marker_invariant_kept:
  "(wellFormedLine l \<longrightarrow>
      halfStars (countStarsInLine (applyMutations l ms)) \<le> 1 \<and>
      markers (applyMutations l ms) =
        replicate (fullStars (countStarsInLine (applyMutations l ms))) FullStar
        @ replicate (halfStars (countStarsInLine (applyMutations l ms))) HalfStar)
   \<and> ((\<forall>k \<in> set (lines p). wellFormedLine k) \<longrightarrow>
        (\<forall>k \<in> set (lines (pressButtons p cs)).
           halfStars (countStarsInLine k) \<le> 1 \<and>
           markers k = replicate (fullStars (countStarsInLine k)) FullStar
                       @ replicate (halfStars (countStarsInLine k)) HalfStar))"
proof (intro conjI impI)
  assume "wellFormedLine l"
  then have "canonicalMarkers (applyMutations l ms)"
    using applyMutations_wellFormed [of l ms] by (simp add: wellFormedLine_def)
  then show "halfStars (countStarsInLine (applyMutations l ms)) \<le> 1"
    and "markers (applyMutations l ms) =
        replicate (fullStars (countStarsInLine (applyMutations l ms))) FullStar
        @ replicate (halfStars (countStarsInLine (applyMutations l ms))) HalfStar"
    by (simp_all add: canonicalMarkers_def)
next
  assume "\<forall>k \<in> set (lines p). wellFormedLine k"
  from pressButtons_wellFormed [OF this, of cs]
  show "\<forall>k \<in> set (lines (pressButtons p cs)).
           halfStars (countStarsInLine k) \<le> 1 \<and>
           markers k = replicate (fullStars (countStarsInLine k)) FullStar
                       @ replicate (halfStars (countStarsInLine k)) HalfStar"
    by (simp add: wellFormedLine_def canonicalMarkers_def)
qed

text \<open>
  A line with two full stars, a count display and buttons, under five mutations; and a
  page of two lines under four button presses, one of them on a line that does not
  exist.
\<close>

theorem marker_invariant_kept_witness:
  "wellFormedLine [FullStar, FullStar, StarCount [] [] [], StarControls]
   \<and> applyMutations [FullStar, FullStar, StarCount [] [] [], StarControls]
        [AddHalf, AddFull, AddHalf, RemoveHalf, RemoveFull]
       = [FullStar, FullStar, HalfStar, StarCount [] [] [], StarControls]
   \<and> halfStars (countStarsInLine (applyMutations [FullStar, FullStar, StarCount [] [] [], StarControls]
        [AddHalf, AddFull, AddHalf, RemoveHalf, RemoveFull])) \<le> 1
   \<and> wellFormedLine [FullStar, FullStar] \<and> wellFormedLine [FullStar, HalfStar]
   \<and> lines (pressButtons
         \<lparr>lines = [[FullStar, FullStar], [FullStar, HalfStar]], mainContainer = True,
          totalDisplay = None\<rparr>
         [(0, AddHalf), (1, AddHalf), (0, RemoveFull), (5, AddFull)])
       = [[FullStar, HalfStar, StarCount ''1.5 STARS'' ''green'' ''bold''],
          [FullStar, FullStar, StarCount ''2 STARS'' ''red'' ''bold'']]
   \<and> halfStars (countStarsInLine [FullStar, HalfStar, StarCount ''1.5 STARS'' ''green'' ''bold'']) \<le> 1
   \<and> halfStars (countStarsInLine [FullStar, FullStar, StarCount ''2 STARS'' ''red'' ''bold'']) \<le> 1"
proof -
  let ?l = "[FullStar, FullStar, StarCount [] [] [], StarControls]"
  let ?ms = "[AddHalf, AddFull, AddHalf, RemoveHalf, RemoveFull]"
  let ?p = "\<lparr>lines = [[FullStar, FullStar], [FullStar, HalfStar]], mainContainer = True,
          totalDisplay = None\<rparr>"
  let ?cs = "[(0, AddHalf), (1, AddHalf), (0, RemoveFull), (5, AddFull)]"
  have w: "wellFormedLine ?l" by code_simp
  have r: "applyMutations ?l ?ms = [FullStar, FullStar, HalfStar, StarCount [] [] [], StarControls]"
    by code_simp
  have w1: "wellFormedLine [FullStar, FullStar]" and w2: "wellFormedLine [FullStar, HalfStar]"
    by code_simp+
  then have all: "\<forall>k \<in> set (lines ?p). wellFormedLine k" by simp
  have pr: "lines (pressButtons ?p ?cs)
       = [[FullStar, HalfStar, StarCount ''1.5 STARS'' ''green'' ''bold''],
          [FullStar, FullStar, StarCount ''2 STARS'' ''red'' ''bold'']]" by code_simp
  from marker_invariant_kept [of ?l ?ms ?p ?cs] w all
  have "halfStars (countStarsInLine (applyMutations ?l ?ms)) \<le> 1"
    and "\<forall>k \<in> set (lines (pressButtons ?p ?cs)). halfStars (countStarsInLine k) \<le> 1"
    by blast+
  with w r w1 w2 pr show ?thesis by simp
qed

text \<open>
  The claim as stated fails on a line that starts with two half stars: after
  \<open>addFullStar\<close> it still has two. It also fails on a line whose count display
  stands between two full stars: the line has no half star, and \<open>addHalfStar\<close>
  puts the new half star before the count display, ahead of the second full star.
\<close>

theorem marker_invariant_counterexample:
  "isStarChangeAllowed (total (countStarsInLine [HalfStar, HalfStar])) 1
   \<and> applyMutations [HalfStar, HalfStar] [AddFull] = [FullStar, HalfStar, HalfStar]
   \<and> halfStars (countStarsInLine (applyMutations [HalfStar, HalfStar] [AddFull])) = 2
   \<and> halfStars (countStarsInLine [FullStar, StarCount [] [] [], FullStar]) = 0
   \<and> markers (applyMutations [FullStar, StarCount [] [] [], FullStar] [AddHalf])
        = [FullStar, HalfStar, FullStar]"
  by code_simp

subsection \<open>C3: the colour of a star count\<close>

text \<open>
  C3. \<open>getColorForStarCount\<close> returns green (the category flagged) whenever the
  half star count is greater than 0, whatever the total; otherwise red (low) when the
  total is at most 2 and yellow (mid) when it is greater than 2. In particular the
  count with total 2 and no half star is red, the count with total 2.5 and one half
  star is green, and the count with total 3 and no half star is yellow.
\<close>

theorem classifier_half_star_priority:
  "(halfStars c > 0 \<longrightarrow> getColorForStarCount c = ''green'')
   \<and> (\<not> halfStars c > 0 \<and> total c \<le> 2 \<longrightarrow> getColorForStarCount c = ''red'')
   \<and> (\<not> halfStars c > 0 \<and> total c > 2 \<longrightarrow> getColorForStarCount c = ''yellow'')
   \<and> getColorForStarCount \<lparr>fullStars = 2, halfStars = 0, total = 2\<rparr> = ''red''
   \<and> getColorForStarCount \<lparr>fullStars = 2, halfStars = 1, total = 5 / 2\<rparr> = ''green''
   \<and> getColorForStarCount \<lparr>fullStars = 3, halfStars = 0, total = 3\<rparr> = ''yellow''"
  by (simp add: getColorForStarCount_def COLORS_GREEN_def COLORS_RED_def COLORS_YELLOW_def
      COLOR_THRESHOLDS_RED_def)

text \<open>
  One count for each of the three cases.
\<close>

theorem classifier_half_star_priority_witness:
  "halfStars \<lparr>fullStars = 1, halfStars = 1, total = 3 / 2\<rparr> > 0
   \<and> getColorForStarCount \<lparr>fullStars = 1, halfStars = 1, total = 3 / 2\<rparr> = ''green''
   \<and> \<not> halfStars \<lparr>fullStars = 1, halfStars = 0, total = 1\<rparr> > 0
   \<and> total \<lparr>fullStars = 1, halfStars = 0, total = 1\<rparr> \<le> 2
   \<and> getColorForStarCount \<lparr>fullStars = 1, halfStars = 0, total = 1\<rparr> = ''red''
   \<and> \<not> halfStars \<lparr>fullStars = 4, halfStars = 0, total = 4\<rparr> > 0
   \<and> total \<lparr>fullStars = 4, halfStars = 0, total = 4\<rparr> > 2
   \<and> getColorForStarCount \<lparr>fullStars = 4, halfStars = 0, total = 4\<rparr> = ''yellow''"
  using classifier_half_star_priority [of "\<lparr>fullStars = 1, halfStars = 1, total = 3 / 2\<rparr>"]
    classifier_half_star_priority [of "\<lparr>fullStars = 1, halfStars = 0, total = 1\<rparr>"]
    classifier_half_star_priority [of "\<lparr>fullStars = 4, halfStars = 0, total = 4\<rparr>"]
  by simp

subsection \<open>C4: the limiter\<close>

text \<open>
  C4. For every current total and every proposed change (in particular 1, -1, 0.5
  and -0.5), \<open>isStarChangeAllowed\<close> returns true exactly when the current total
  plus the change lies between 1 and 5 inclusive. It is a function of its two numbers
  only: it takes no line or page and returns none, so it changes no state.
\<close>

theorem limiter_accepts_iff_in_range:
  "isStarChangeAllowed currentTotal delta
     = (1 \<le> currentTotal + delta \<and> currentTotal + delta \<le> 5)"
  by (simp add: isStarChangeAllowed_def STAR_LIMITS_MIN_def STAR_LIMITS_MAX_def Let_def)

subsection \<open>C5: a rejected change\<close>

text \<open>
  C5. When \<open>isStarChangeAllowed\<close> rejects the change for a line of the page,
  \<open>handleStarChange\<close> returns without an exception and leaves the whole page as it
  was: the children of every line (so the marker sequence and the text of every count
  display) and the total display.
\<close>

theorem rejected_change_is_silent_noop:
  assumes "i < length (lines p)"
    and "\<not> isStarChangeAllowed (total (countStarsInLine (lines p ! i))) d"
  shows "handleStarChange p i d = Returned p"
  using assms by (simp add: handleStarChange_def Let_def)

text \<open>
  Removing a star from a line with a single full star.
\<close>

theorem rejected_change_is_silent_noop_witness:
  "(0::nat) < length (lines \<lparr>lines = [[FullStar, StarCount ''1 STARS'' ''red'' ''bold'', StarControls]],
                            mainContainer = True, totalDisplay = Some ''Total: 1 STARS''\<rparr>)
   \<and> \<not> isStarChangeAllowed (total (countStarsInLine [FullStar, StarCount ''1 STARS'' ''red'' ''bold'', StarControls])) (- 1)
   \<and> handleStarChange \<lparr>lines = [[FullStar, StarCount ''1 STARS'' ''red'' ''bold'', StarControls]],
                            mainContainer = True, totalDisplay = Some ''Total: 1 STARS''\<rparr> 0 (- 1)
       = Returned \<lparr>lines = [[FullStar, StarCount ''1 STARS'' ''red'' ''bold'', StarControls]],
                            mainContainer = True, totalDisplay = Some ''Total: 1 STARS''\<rparr>"
proof -
  let ?p = "\<lparr>lines = [[FullStar, StarCount ''1 STARS'' ''red'' ''bold'', StarControls]],
                            mainContainer = True, totalDisplay = Some ''Total: 1 STARS''\<rparr>"
  have h1: "0 < length (lines ?p)" by simp
  have h2: "\<not> isStarChangeAllowed (total (countStarsInLine (lines ?p ! 0))) (- 1)"
    by (simp add: countStarsInLine_eq isStarChangeAllowed_iff)
  from rejected_change_is_silent_noop [OF h1 h2] h2 show ?thesis by simp
qed

subsection \<open>C6: adding a half star\<close>

text \<open>
  C6, as amended. On every line on which the change 0.5 is accepted,
  \<open>addHalfStar\<close> raises the total by exactly 0.5 and leaves the children that are
  not stars as they are. If the line has a half star and its markers are in canonical
  order (at most one half star, after all full stars), the half star is removed and a
  full star stands in its place. If the line has no half star and no star at or behind
  its insertion point, a half star is appended after all its markers.
\<close>

theorem addHalfStar_merges_or_appends:
  assumes "isStarChangeAllowed (total (countStarsInLine l)) (1 / 2)"
  shows "lineTotal (addHalfStar l) = lineTotal l + 1 / 2
       \<and> filter (\<lambda>x. \<not> isMarker x) (addHalfStar l) = filter (\<lambda>x. \<not> isMarker x) l
       \<and> (halfStars (countStarsInLine l) > 0 \<and> canonicalMarkers l \<longrightarrow>
            markers l = replicate (fullStars (countStarsInLine l)) FullStar @ [HalfStar] \<and>
            markers (addHalfStar l) = replicate (fullStars (countStarsInLine l)) FullStar @ [FullStar])
       \<and> (halfStars (countStarsInLine l) = 0 \<and> starsBeforeInsertionPoint l \<longrightarrow>
            markers (addHalfStar l) = markers l @ [HalfStar])"
proof -
  from assms have acc: "isStarChangeAllowed (lineTotal l) (1 / 2)" by (simp add: lineTotal_def)
  have "halfStars (countStarsInLine l) > 0 \<Longrightarrow> filter isHalfStar l \<noteq> []"
    by (auto simp: countStarsInLine_eq)
  moreover have "halfStars (countStarsInLine l) = 0 \<Longrightarrow> filter isHalfStar l = []"
    by (simp add: countStarsInLine_eq)
  moreover have "fullStars (countStarsInLine l) = length (filter isFullStar l)"
    by (simp add: countStarsInLine_eq)
  ultimately show ?thesis
    using addHalfStar_total [OF acc] others_addHalfStar [OF acc]
      addHalfStar_merge_markers [OF _ acc] addHalfStar_new_markers [OF _ acc]
    by simp
qed

text \<open>
  A line with a full and a half star (the merge), and a line with two full stars
  (the new half star), each with a count display and buttons.
\<close>

theorem addHalfStar_merges_or_appends_witness:
  "isStarChangeAllowed (total (countStarsInLine [FullStar, HalfStar, StarCount [] [] [], StarControls])) (1 / 2)
   \<and> halfStars (countStarsInLine [FullStar, HalfStar, StarCount [] [] [], StarControls]) > 0
   \<and> canonicalMarkers [FullStar, HalfStar, StarCount [] [] [], StarControls]
   \<and> markers (addHalfStar [FullStar, HalfStar, StarCount [] [] [], StarControls]) = [FullStar, FullStar]
   \<and> lineTotal (addHalfStar [FullStar, HalfStar, StarCount [] [] [], StarControls]) = 2
   \<and> isStarChangeAllowed (total (countStarsInLine [FullStar, FullStar, StarCount [] [] [], StarControls])) (1 / 2)
   \<and> halfStars (countStarsInLine [FullStar, FullStar, StarCount [] [] [], StarControls]) = 0
   \<and> starsBeforeInsertionPoint [FullStar, FullStar, StarCount [] [] [], StarControls]
   \<and> markers (addHalfStar [FullStar, FullStar, StarCount [] [] [], StarControls])
        = [FullStar, FullStar, HalfStar]"
proof -
  let ?a = "[FullStar, HalfStar, StarCount [] [] [], StarControls]"
  let ?b = "[FullStar, FullStar, StarCount [] [] [], StarControls]"
  have a1: "isStarChangeAllowed (total (countStarsInLine ?a)) (1 / 2)" by code_simp
  have a2: "halfStars (countStarsInLine ?a) > 0" by code_simp
  have a3: "canonicalMarkers ?a" by code_simp
  have a4: "fullStars (countStarsInLine ?a) = 1" by code_simp
  have a5: "lineTotal ?a = 3 / 2" by code_simp
  have b1: "isStarChangeAllowed (total (countStarsInLine ?b)) (1 / 2)" by code_simp
  have b2: "halfStars (countStarsInLine ?b) = 0" by code_simp
  have b3: "starsBeforeInsertionPoint ?b" by code_simp
  have b4: "markers ?b = [FullStar, FullStar]" by code_simp
  from addHalfStar_merges_or_appends [OF a1] addHalfStar_merges_or_appends [OF b1]
    a1 a2 a3 a4 a5 b1 b2 b3 b4
  show ?thesis by simp
qed

text \<open>
  The claim as stated fails on a line whose count display stands between two full
  stars: the new half star goes before the count display, ahead of the second full
  star. It also fails on a line with two half stars before a full star: the first
  half star is removed and the new full star is put after the last full star, not in
  the place of the removed half star.
\<close>

theorem addHalfStar_counterexample:
  "isStarChangeAllowed (total (countStarsInLine [FullStar, StarCount [] [] [], FullStar])) (1 / 2)
   \<and> halfStars (countStarsInLine [FullStar, StarCount [] [] [], FullStar]) = 0
   \<and> addHalfStar [FullStar, StarCount [] [] [], FullStar]
        = [FullStar, HalfStar, StarCount [] [] [], FullStar]
   \<and> isStarChangeAllowed (total (countStarsInLine [HalfStar, HalfStar, FullStar])) (1 / 2)
   \<and> addHalfStar [HalfStar, HalfStar, FullStar] = [HalfStar, FullStar, FullStar]"
  by code_simp

subsection \<open>C7: merge, then split\<close>

text \<open>
  C7, as amended. Take a line with exactly one half star, placed after all its full
  stars, whose total lies between 1 and 5 and on which the change 0.5 is accepted.
  Then the change -0.5 is accepted after the merge, and \<open>addHalfStar\<close> followed by
  \<open>removeHalfStar\<close> gives back the original marker sequence; so do the two changes
  made through \<open>handleStarChange\<close> on a line of a page.
\<close>

theorem merge_then_split_restores_markers:
  assumes "canonicalMarkers l"
    and "halfStars (countStarsInLine l) > 0"
    and "1 \<le> lineTotal l \<and> lineTotal l \<le> 5"
    and "isStarChangeAllowed (lineTotal l) (1 / 2)"
  shows "isStarChangeAllowed (lineTotal (addHalfStar l)) (- (1 / 2))
       \<and> markers (removeHalfStar (addHalfStar l)) = markers l
       \<and> (i < length (lines p) \<and> lines p ! i = l \<longrightarrow>
            markers (lines (finalPage (handleStarChange
                       (finalPage (handleStarChange p i (1 / 2))) i (- (1 / 2)))) ! i)
              = markers l)"
proof -
  from assms(2) have half: "filter isHalfStar l \<noteq> []" by (auto simp: countStarsInLine_eq)
  note m = addHalfStar_merge_markers [OF assms(1,4) half]
  from addHalfStar_total [OF assms(4)] assms(3)
  have acc2: "isStarChangeAllowed (lineTotal (addHalfStar l)) (- (1 / 2))"
    by (simp add: isStarChangeAllowed_iff)
  from removeHalfStar_after_merge [OF m(2) acc2] m(1)
  have direct: "markers (removeHalfStar (addHalfStar l)) = markers l" by simp
  have "markers (lines (finalPage (handleStarChange
                       (finalPage (handleStarChange p i (1 / 2))) i (- (1 / 2)))) ! i)
              = markers l" if i: "i < length (lines p)" and l: "lines p ! i = l"
  proof -
    let ?l1 = "updateLineDisplay (addHalfStar l) (Some (countStarsInLine (addHalfStar l)))"
    let ?p1 = "finalPage (handleStarChange p i (1 / 2))"
    from i l assms(4) have l1: "lines ?p1 ! i = ?l1" and len: "i < length (lines ?p1)"
      by (simp_all add: handleStarChange_lines mutateLine_def)
    from m(2) have m1: "markers ?l1 = replicate (length (filter isFullStar l)) FullStar @ [FullStar]"
      by simp
    from acc2 have acc1: "isStarChangeAllowed (lineTotal ?l1) (- (1 / 2))" by simp
    from len l1 acc1 have "lines (finalPage (handleStarChange ?p1 i (- (1 / 2)))) ! i
        = updateLineDisplay (removeHalfStar ?l1) (Some (countStarsInLine (removeHalfStar ?l1)))"
      by (simp add: handleStarChange_lines mutateLine_def)
    with removeHalfStar_after_merge [OF m1 acc1] m(1) show ?thesis by simp
  qed
  with acc2 direct show ?thesis by simp
qed

text \<open>
  A line with two full stars and a half star.
\<close>

theorem merge_then_split_restores_markers_witness:
  "canonicalMarkers [FullStar, FullStar, HalfStar, StarCount ''2.5 STARS'' ''green'' ''bold'', StarControls]
   \<and> halfStars (countStarsInLine [FullStar, FullStar, HalfStar, StarCount ''2.5 STARS'' ''green'' ''bold'', StarControls]) > 0
   \<and> 1 \<le> lineTotal [FullStar, FullStar, HalfStar, StarCount ''2.5 STARS'' ''green'' ''bold'', StarControls]
   \<and> lineTotal [FullStar, FullStar, HalfStar, StarCount ''2.5 STARS'' ''green'' ''bold'', StarControls] \<le> 5
   \<and> isStarChangeAllowed (lineTotal [FullStar, FullStar, HalfStar, StarCount ''2.5 STARS'' ''green'' ''bold'', StarControls]) (1 / 2)
   \<and> isStarChangeAllowed (lineTotal (addHalfStar [FullStar, FullStar, HalfStar, StarCount ''2.5 STARS'' ''green'' ''bold'', StarControls])) (- (1 / 2))
   \<and> markers (removeHalfStar (addHalfStar [FullStar, FullStar, HalfStar, StarCount ''2.5 STARS'' ''green'' ''bold'', StarControls]))
       = [FullStar, FullStar, HalfStar]"
proof -
  let ?l = "[FullStar, FullStar, HalfStar, StarCount ''2.5 STARS'' ''green'' ''bold'', StarControls]"
  have h1: "canonicalMarkers ?l" by code_simp
  have h2: "halfStars (countStarsInLine ?l) > 0" by code_simp
  have h3: "1 \<le> lineTotal ?l \<and> lineTotal ?l \<le> 5" by code_simp
  have h4: "isStarChangeAllowed (lineTotal ?l) (1 / 2)" by code_simp
  have m: "markers ?l = [FullStar, FullStar, HalfStar]" by code_simp
  from merge_then_split_restores_markers [OF h1 h2 h3 h4] h1 h2 h3 h4 m
  show ?thesis by simp
qed

text \<open>
  The claim as stated fails on a line with a full star and two half stars (total 2):
  both changes are accepted, the merge takes the first half star, the split then
  removes the second, and two full stars remain.
\<close>

theorem merge_then_split_counterexample:
  "halfStars (countStarsInLine [FullStar, HalfStar, HalfStar]) > 0
   \<and> 1 \<le> lineTotal [FullStar, HalfStar, HalfStar]
   \<and> lineTotal [FullStar, HalfStar, HalfStar] \<le> 5
   \<and> isStarChangeAllowed (lineTotal [FullStar, HalfStar, HalfStar]) (1 / 2)
   \<and> isStarChangeAllowed (lineTotal (addHalfStar [FullStar, HalfStar, HalfStar])) (- (1 / 2))
   \<and> markers [FullStar, HalfStar, HalfStar] = [FullStar, HalfStar, HalfStar]
   \<and> markers (removeHalfStar (addHalfStar [FullStar, HalfStar, HalfStar])) = [FullStar, FullStar]
   \<and> markers (lines (finalPage (handleStarChange (finalPage (handleStarChange
          \<lparr>lines = [[FullStar, HalfStar, HalfStar]], mainContainer = True, totalDisplay = None\<rparr>
          0 (1 / 2))) 0 (- (1 / 2)))) ! 0) = [FullStar, FullStar]"
  by code_simp

subsection \<open>C8: the total display\<close>

text \<open>
  C8. After an accepted change on a line of the page, \<open>handleStarChange\<close>
  returns with the total display showing the sum of the totals of all lines as they
  are after the change, provided the total display exists or can be created (the page
  has the container \<open>#main\<close>); otherwise a TypeError propagates and there is no
  total display. After a rejected change the page is unchanged, so a total display
  that showed the sum still shows it. \<open>updateAllDisplays\<close>, which the
  initialisation runs, makes the total display show the sum in the same way.
\<close>

theorem aggregate_display_shows_sum:
  assumes "i < length (lines p)"
  shows "(isStarChangeAllowed (total (countStarsInLine (lines p ! i))) d \<longrightarrow>
            (if totalDisplay p = None \<and> \<not> mainContainer p
             then \<exists>p'. handleStarChange p i d = Thrown TypeError p' \<and> totalDisplay p' = None
             else \<exists>p'. handleStarChange p i d = Returned p' \<and> aggregateShown p'))
       \<and> (\<not> isStarChangeAllowed (total (countStarsInLine (lines p ! i))) d \<longrightarrow>
            handleStarChange p i d = Returned p \<and>
            (aggregateShown p \<longrightarrow> aggregateShown (finalPage (handleStarChange p i d))))
       \<and> (if totalDisplay p = None \<and> \<not> mainContainer p
            then \<exists>p'. updateAllDisplays p = Thrown TypeError p' \<and> totalDisplay p' = None
            else \<exists>p'. updateAllDisplays p = Returned p' \<and> aggregateShown p')"
proof -
  have accepted: "if totalDisplay p = None \<and> \<not> mainContainer p
        then \<exists>p'. handleStarChange p i d = Thrown TypeError p' \<and> totalDisplay p' = None
        else \<exists>p'. handleStarChange p i d = Returned p' \<and> aggregateShown p'"
    if "isStarChangeAllowed (total (countStarsInLine (lines p ! i))) d"
  proof -
    from that have acc: "isStarChangeAllowed (lineTotal (lines p ! i)) d"
      by (simp add: lineTotal_def)
    show ?thesis
      by (simp add: handleStarChange_accepted [OF assms acc] updateTotalDisplay_cases
          aggregateShown_def calculateTotalStars_sum)
  qed
  have rejected: "handleStarChange p i d = Returned p \<and>
        (aggregateShown p \<longrightarrow> aggregateShown (finalPage (handleStarChange p i d)))"
    if "\<not> isStarChangeAllowed (total (countStarsInLine (lines p ! i))) d"
  proof -
    from that have "\<not> isStarChangeAllowed (lineTotal (lines p ! i)) d"
      by (simp add: lineTotal_def)
    from handleStarChange_rejected [OF assms this] show ?thesis by simp
  qed
  have "sum_list (map total (map countStarsInLine (lines p)))
        = sum_list (map lineTotal
            (map (\<lambda>line. updateLineDisplay line (Some (countStarsInLine line))) (lines p)))"
    by (simp add: comp_def lineTotal_def)
  then have init: "if totalDisplay p = None \<and> \<not> mainContainer p
        then \<exists>p'. updateAllDisplays p = Thrown TypeError p' \<and> totalDisplay p' = None
        else \<exists>p'. updateAllDisplays p = Returned p' \<and> aggregateShown p'"
    by (simp add: updateAllDisplays_def updateAllLinesDisplay_def updateTotalDisplay_cases
        aggregateShown_def calculateTotalFromCounts_sum sumOfLineTotals_def)
  from accepted rejected init show ?thesis by blast
qed

text \<open>
  A page of two lines: an accepted change on the first line, then a rejected change on
  the second.
\<close>

theorem aggregate_display_shows_sum_witness:
  "(0::nat) < length (lines \<lparr>lines = [[FullStar, FullStar], [FullStar, HalfStar]],
                             mainContainer = True, totalDisplay = None\<rparr>)
   \<and> isStarChangeAllowed (total (countStarsInLine [FullStar, FullStar])) 1
   \<and> handleStarChange \<lparr>lines = [[FullStar, FullStar], [FullStar, HalfStar]],
                        mainContainer = True, totalDisplay = None\<rparr> 0 1
       = Returned \<lparr>lines = [[FullStar, FullStar, FullStar, StarCount ''3 STARS'' ''yellow'' ''bold''],
                            [FullStar, HalfStar]],
                   mainContainer = True, totalDisplay = Some ''Total: 4.5 STARS''\<rparr>
   \<and> aggregateShown \<lparr>lines = [[FullStar, FullStar, FullStar, StarCount ''3 STARS'' ''yellow'' ''bold''],
                            [FullStar, HalfStar]],
                   mainContainer = True, totalDisplay = Some ''Total: 4.5 STARS''\<rparr>
   \<and> \<not> isStarChangeAllowed (total (countStarsInLine [FullStar, HalfStar])) (- 1)
   \<and> handleStarChange \<lparr>lines = [[FullStar, FullStar, FullStar, StarCount ''3 STARS'' ''yellow'' ''bold''],
                            [FullStar, HalfStar]],
                   mainContainer = True, totalDisplay = Some ''Total: 4.5 STARS''\<rparr> 1 (- 1)
       = Returned \<lparr>lines = [[FullStar, FullStar, FullStar, StarCount ''3 STARS'' ''yellow'' ''bold''],
                            [FullStar, HalfStar]],
                   mainContainer = True, totalDisplay = Some ''Total: 4.5 STARS''\<rparr>"
proof -
  let ?p = "\<lparr>lines = [[FullStar, FullStar], [FullStar, HalfStar]],
             mainContainer = True, totalDisplay = None\<rparr>"
  let ?q = "\<lparr>lines = [[FullStar, FullStar, FullStar, StarCount ''3 STARS'' ''yellow'' ''bold''],
                      [FullStar, HalfStar]],
             mainContainer = True, totalDisplay = Some ''Total: 4.5 STARS''\<rparr>"
  have i0: "0 < length (lines ?p)" by simp
  have i1: "1 < length (lines ?q)" by simp
  have acc: "isStarChangeAllowed (total (countStarsInLine (lines ?p ! 0))) 1" by code_simp
  have rej: "\<not> isStarChangeAllowed (total (countStarsInLine (lines ?q ! 1))) (- 1)" by code_simp
  have run: "handleStarChange ?p 0 1 = Returned ?q" by code_simp
  from aggregate_display_shows_sum [OF i0, of 1] acc run have shown: "aggregateShown ?q"
    by simp
  from aggregate_display_shows_sum [OF i1, of "- 1"] rej
  have "handleStarChange ?q 1 (- 1) = Returned ?q" by blast
  with acc rej run shown show ?thesis by simp
qed

subsection \<open>C9: removing a full star\<close>

text \<open>
  C9. On every line on which the change -1 is accepted, \<open>removeFullStar\<close>
  removes the last full star in document order and nothing else; if the line has no
  full star it leaves the line as it is. It is a total function on lines: it does not
  throw.
\<close>

theorem removeFullStar_removes_last_or_noop:
  assumes "isStarChangeAllowed (total (countStarsInLine l)) (- 1)"
  shows "(fullStars (countStarsInLine l) > 0 \<longrightarrow>
            (\<exists>pre post. l = pre @ FullStar # post \<and> filter isFullStar post = []
                \<and> removeFullStar l = pre @ post))
       \<and> (fullStars (countStarsInLine l) = 0 \<longrightarrow> removeFullStar l = l)"
proof (intro conjI impI)
  assume "fullStars (countStarsInLine l) > 0"
  then have "filter isFullStar l \<noteq> []" by (auto simp: countStarsInLine_eq)
  with assms show "\<exists>pre post. l = pre @ FullStar # post \<and> filter isFullStar post = []
                \<and> removeFullStar l = pre @ post"
    by (simp add: removeFullStar_some lineTotal_def)
next
  assume "fullStars (countStarsInLine l) = 0"
  then show "removeFullStar l = l" by (simp add: countStarsInLine_eq removeFullStar_none)
qed

text \<open>
  A line with two full stars and a half star, and a line of four half stars.
\<close>

theorem removeFullStar_removes_last_or_noop_witness:
  "isStarChangeAllowed (total (countStarsInLine [FullStar, FullStar, HalfStar, StarControls])) (- 1)
   \<and> fullStars (countStarsInLine [FullStar, FullStar, HalfStar, StarControls]) > 0
   \<and> (\<exists>pre post. [FullStar, FullStar, HalfStar, StarControls] = pre @ FullStar # post
          \<and> filter isFullStar post = []
          \<and> removeFullStar [FullStar, FullStar, HalfStar, StarControls] = pre @ post)
   \<and> removeFullStar [FullStar, FullStar, HalfStar, StarControls] = [FullStar, HalfStar, StarControls]
   \<and> isStarChangeAllowed (total (countStarsInLine [HalfStar, HalfStar, HalfStar, HalfStar])) (- 1)
   \<and> fullStars (countStarsInLine [HalfStar, HalfStar, HalfStar, HalfStar]) = 0
   \<and> removeFullStar [HalfStar, HalfStar, HalfStar, HalfStar] = [HalfStar, HalfStar, HalfStar, HalfStar]"
proof -
  have a1: "isStarChangeAllowed (total (countStarsInLine [FullStar, FullStar, HalfStar, StarControls])) (- 1)"
    by code_simp
  have a2: "isStarChangeAllowed (total (countStarsInLine [HalfStar, HalfStar, HalfStar, HalfStar])) (- 1)"
    by code_simp
  have f1: "fullStars (countStarsInLine [FullStar, FullStar, HalfStar, StarControls]) > 0"
    by code_simp
  have f2: "fullStars (countStarsInLine [HalfStar, HalfStar, HalfStar, HalfStar]) = 0"
    by code_simp
  have r: "removeFullStar [FullStar, FullStar, HalfStar, StarControls] = [FullStar, HalfStar, StarControls]"
    by code_simp
  from removeFullStar_removes_last_or_noop [OF a1] removeFullStar_removes_last_or_noop [OF a2]
    a1 a2 f1 f2 r
  show ?thesis by simp
qed

subsection \<open>C10: every mutation function checks the limit itself\<close>

text \<open>
  C10. Each of \<open>addFullStar\<close>, \<open>removeFullStar\<close>,
  \<open>addHalfStar\<close> and \<open>removeHalfStar\<close> leaves the line as it is when
  \<open>isStarChangeAllowed\<close> rejects its change for the line's total. So a direct
  call of any of them on a line whose total lies between 1 and 5 gives a line whose
  total lies between 1 and 5.
\<close>

theorem mutators_recheck_limit:
  "(\<not> isStarChangeAllowed (total (countStarsInLine l)) 1 \<longrightarrow> addFullStar l = l)
   \<and> (\<not> isStarChangeAllowed (total (countStarsInLine l)) (- 1) \<longrightarrow> removeFullStar l = l)
   \<and> (\<not> isStarChangeAllowed (total (countStarsInLine l)) (1 / 2) \<longrightarrow> addHalfStar l = l)
   \<and> (\<not> isStarChangeAllowed (total (countStarsInLine l)) (- (1 / 2)) \<longrightarrow> removeHalfStar l = l)
   \<and> (1 \<le> total (countStarsInLine l) \<and> total (countStarsInLine l) \<le> 5 \<longrightarrow>
        1 \<le> total (countStarsInLine (addFullStar l)) \<and> total (countStarsInLine (addFullStar l)) \<le> 5
      \<and> 1 \<le> total (countStarsInLine (removeFullStar l)) \<and> total (countStarsInLine (removeFullStar l)) \<le> 5
      \<and> 1 \<le> total (countStarsInLine (addHalfStar l)) \<and> total (countStarsInLine (addHalfStar l)) \<le> 5
      \<and> 1 \<le> total (countStarsInLine (removeHalfStar l)) \<and> total (countStarsInLine (removeHalfStar l)) \<le> 5)"
  using addFullStar_rejected [of l] removeFullStar_rejected [of l] addHalfStar_rejected [of l]
    removeHalfStar_rejected [of l] in_range_after [of l]
  by (simp add: lineTotal_def)

text \<open>
  A line of five full stars and a line of one full star (the rejected changes), and a
  line with two full stars and a half star (within the range).
\<close>

theorem mutators_recheck_limit_witness:
  "\<not> isStarChangeAllowed (total (countStarsInLine (replicate 5 FullStar))) 1
   \<and> addFullStar (replicate 5 FullStar) = replicate 5 FullStar
   \<and> \<not> isStarChangeAllowed (total (countStarsInLine (replicate 5 FullStar))) (1 / 2)
   \<and> addHalfStar (replicate 5 FullStar) = replicate 5 FullStar
   \<and> \<not> isStarChangeAllowed (total (countStarsInLine [FullStar])) (- 1)
   \<and> removeFullStar [FullStar] = [FullStar]
   \<and> \<not> isStarChangeAllowed (total (countStarsInLine [FullStar])) (- (1 / 2))
   \<and> removeHalfStar [FullStar] = [FullStar]
   \<and> 1 \<le> total (countStarsInLine [FullStar, FullStar, HalfStar])
   \<and> total (countStarsInLine [FullStar, FullStar, HalfStar]) \<le> 5
   \<and> 1 \<le> total (countStarsInLine (addFullStar [FullStar, FullStar, HalfStar]))
   \<and> total (countStarsInLine (addFullStar [FullStar, FullStar, HalfStar])) \<le> 5
   \<and> 1 \<le> total (countStarsInLine (removeFullStar [FullStar, FullStar, HalfStar]))
   \<and> total (countStarsInLine (removeFullStar [FullStar, FullStar, HalfStar])) \<le> 5
   \<and> 1 \<le> total (countStarsInLine (addHalfStar [FullStar, FullStar, HalfStar]))
   \<and> total (countStarsInLine (addHalfStar [FullStar, FullStar, HalfStar])) \<le> 5
   \<and> 1 \<le> total (countStarsInLine (removeHalfStar [FullStar, FullStar, HalfStar]))
   \<and> total (countStarsInLine (removeHalfStar [FullStar, FullStar, HalfStar])) \<le> 5"
proof -
  have r1: "\<not> isStarChangeAllowed (total (countStarsInLine (replicate 5 FullStar))) 1" by code_simp
  have r2: "\<not> isStarChangeAllowed (total (countStarsInLine (replicate 5 FullStar))) (1 / 2)" by code_simp
  have r3: "\<not> isStarChangeAllowed (total (countStarsInLine [FullStar])) (- 1)" by code_simp
  have r4: "\<not> isStarChangeAllowed (total (countStarsInLine [FullStar])) (- (1 / 2))" by code_simp
  have r5: "1 \<le> total (countStarsInLine [FullStar, FullStar, HalfStar])
            \<and> total (countStarsInLine [FullStar, FullStar, HalfStar]) \<le> 5" by code_simp
  from mutators_recheck_limit [of "replicate 5 FullStar"] mutators_recheck_limit [of "[FullStar]"]
    mutators_recheck_limit [of "[FullStar, FullStar, HalfStar]"] r1 r2 r3 r4 r5
  show ?thesis by simp
qed

end
